theory Spec2Isabelle
  imports Main
begin

section \<open>The element type and the outcomes of an operation\<close>

text \<open>
  The container of \<^verbatim>\<open>vector.h\<close> is generic in its element type \<^verbatim>\<open>T\<close> and only ever
  invokes T's constructors, assignments and destructor.  What these do is a parameter of
  the model: a successful copy or move construction (or assignment) gives the target the
  value of the source, a move leaves \<open>moved_from x\<close> behind in the source, and each
  operation may throw, depending on the value it is applied to.  The two type traits the
  code branches on with \<^verbatim>\<open>if constexpr\<close> are fields as well, and so is the allocator:
  \<open>alloc_throws n\<close> says that \<^verbatim>\<open>operator new\<close>, called for a block of \<open>n\<close>
  elements, throws \<^verbatim>\<open>std::bad_alloc\<close>.  \<open>sizeof_T\<close> is \<^verbatim>\<open>sizeof(T)\<close>.

  Sizes and offsets are natural numbers, and \<^verbatim>\<open>size_t\<close> has 64 bits.  Two places of
  the source compute in \<^verbatim>\<open>size_t\<close> where the wrap-around matters, and both are
  written out below: \<^verbatim>\<open>size_ - 1\<close> at size 0 (\<open>size_t_pred\<close>), and the byte count
  \<^verbatim>\<open>n * sizeof(T)\<close> of an allocation (\<open>allocated_slots\<close>).  The doubling
  \<^verbatim>\<open>size_ * 2\<close> is not reduced: the block of an existing vector is an object, of at
  most \<^verbatim>\<open>PTRDIFF_MAX\<close> bytes (\<open>in_memory\<close> below), so twice its size is a
  \<^verbatim>\<open>size_t\<close>.

  The assertions of the source are enabled: a failed \<^verbatim>\<open>assert\<close> ends the call with the
  fault \<open>AssertFail\<close>.
\<close>

record 'a T_model =
  is_nothrow_move_constructible :: bool
  is_copy_constructible :: bool
  copy_ctor_throws :: "'a \<Rightarrow> bool"
  move_ctor_throws :: "'a \<Rightarrow> bool"
  args_ctor_throws :: "'a \<Rightarrow> bool"
  default_ctor_throws :: bool
  copy_assign_throws :: "'a \<Rightarrow> bool"
  move_assign_throws :: "'a \<Rightarrow> bool"
  moved_from :: "'a \<Rightarrow> 'a"
  default_value :: 'a
  alloc_throws :: "nat \<Rightarrow> bool"
  sizeof_T :: nat

text \<open>Exceptions that leave an operation, and the ways a call can leave the language's
  defined behaviour: a failed \<^verbatim>\<open>assert\<close>, the use (read, assignment, destruction) of a
  slot that holds no live object, a construction into a slot that holds one, an address
  outside the storage, and an iterator range whose end lies before its start.\<close>

datatype exn = bad_alloc | T_exception

datatype fault = AssertFail | DeadAccess | LiveConstruct | OutOfRange | BadRange

text \<open>Every call of a constructor, assignment or destructor of T is recorded, with the
  value of its source (for the destructor: of the object destroyed).\<close>

datatype 'a event =
    CopyCtor 'a | MoveCtor 'a | ArgsCtor 'a | DefaultCtor
  | CopyAssign 'a | MoveAssign 'a | Dtor 'a

text \<open>An operation returns a result in a state, leaves by an exception in the state the
  unwinding produced, or faults.  The events are those of this call, oldest first.\<close>

datatype ('a, 's, 'r) outcome =
    Returns 'r 's "'a event list"
  | Throws exn 's "'a event list"
  | Fault fault

definition emits :: "'a event list \<Rightarrow> ('a, 's, 'r) outcome \<Rightarrow> ('a, 's, 'r) outcome" where
  "emits es0 r = (case r of
      Returns y s es \<Rightarrow> Returns y s (es0 @ es)
    | Throws x s es \<Rightarrow> Throws x s (es0 @ es)
    | Fault f \<Rightarrow> Fault f)"

text \<open>Sequencing of two steps of a function body: when the first step throws, the
  exception leaves the function and \<open>unwind\<close> says in which state; when it returns, the
  rest of the body runs in the state it produced.\<close>

definition seq ::
  "('a, 's, 'r) outcome \<Rightarrow> ('s \<Rightarrow> 't) \<Rightarrow> ('s \<Rightarrow> ('a, 't, 'q) outcome) \<Rightarrow> ('a, 't, 'q) outcome" where
  "seq r unwind k = (case r of
      Returns y s es \<Rightarrow> emits es (k s)
    | Throws x s es \<Rightarrow> Throws x (unwind s) es
    | Fault f \<Rightarrow> Fault f)"

text \<open>The destructor of a local object runs when its scope is left, by return or by
  exception; the two events are the destructor call in either case.\<close>

definition leave_scope ::
  "'a event \<Rightarrow> 'a event \<Rightarrow> ('a, 's, 'r) outcome \<Rightarrow> ('a, 's, 'r) outcome" where
  "leave_scope on_return on_throw r = (case r of
      Returns y s es \<Rightarrow> Returns y s (es @ [on_return])
    | Throws x s es \<Rightarrow> Throws x s (es @ [on_throw])
    | Fault f \<Rightarrow> Fault f)"

section \<open>Raw storage\<close>

text \<open>
  \<^verbatim>\<open>RawMemory<T>\<close> records a pointer \<^verbatim>\<open>buffer_\<close> and a number of slots \<^verbatim>\<open>capacity_\<close>;
  the two only ever change together.  The block is the list of its \<^verbatim>\<open>capacity_\<close>
  slots, \<^verbatim>\<open>Capacity()\<close> is the length of the list, and a pointer into the block is an
  offset.  A slot is \<open>Raw\<close> while it is uninitialised memory and \<open>Live x\<close> while it holds
  a live object of value \<open>x\<close>.  It is \<open>Beyond\<close> when the allocation behind \<^verbatim>\<open>buffer_\<close>
  does not reach that far, which happens when the byte count wrapped.
\<close>

datatype 'a slot = Raw | Live 'a | Beyond

type_synonym 'a RawMemory = "'a slot list"

definition SIZE_MAX :: nat where
  "SIZE_MAX = 2 ^ 64 - 1"

definition size_t_pred :: "nat \<Rightarrow> nat" where
  "size_t_pred n = (n + SIZE_MAX) mod (SIZE_MAX + 1)"

text \<open>
  \<^verbatim>\<open>Allocate(n)\<close> asks \<^verbatim>\<open>operator new\<close> for \<^verbatim>\<open>n * sizeof(T)\<close> bytes, a product in
  \<^verbatim>\<open>size_t\<close>: the block it gets holds \<open>allocated_slots T n\<close> whole slots, which is \<open>n\<close>
  when the product does not wrap.
\<close>

definition allocated_slots :: "'a T_model \<Rightarrow> nat \<Rightarrow> nat" where
  "allocated_slots T n = ((n * sizeof_T T) mod (SIZE_MAX + 1)) div sizeof_T T"

text \<open>
  \<^verbatim>\<open>explicit RawMemory(size_t capacity)\<close> with \<^verbatim>\<open>Allocate\<close>: no allocation (and so no
  \<^verbatim>\<open>bad_alloc\<close>) for capacity 0; otherwise \<^verbatim>\<open>capacity_\<close> is \<open>n\<close> whatever was allocated.
  The argument is a \<^verbatim>\<open>size_t\<close>: the capacity a caller of \<^verbatim>\<open>Reserve\<close> asks for, which
  may be any number up to \<^verbatim>\<open>SIZE_MAX\<close>, or the size of a vector, or twice that size.
\<close>

definition RawMemory_new :: "'a T_model \<Rightarrow> nat \<Rightarrow> 'a RawMemory option" where
  "RawMemory_new T n =
     (if n \<noteq> 0 then
        (if alloc_throws T n then None
         else Some (replicate (allocated_slots T n) Raw
                      @ replicate (n - allocated_slots T n) Beyond))
      else Some [])"

text \<open>\<^verbatim>\<open>operator+\<close> and \<^verbatim>\<open>operator[]\<close> of RawMemory with their assertions.\<close>

definition RawMemory_plus :: "'a RawMemory \<Rightarrow> nat \<Rightarrow> fault + nat" where
  "RawMemory_plus m offset = (if offset \<le> length m then Inr offset else Inl AssertFail)"

definition RawMemory_at :: "'a RawMemory \<Rightarrow> nat \<Rightarrow> fault + nat" where
  "RawMemory_at m index = (if index < length m then Inr index else Inl AssertFail)"

subsection \<open>Objects in slots\<close>

definition read_obj :: "'a RawMemory \<Rightarrow> nat \<Rightarrow> fault + 'a" where
  "read_obj m i =
     (if length m \<le> i then Inl OutOfRange
      else case m ! i of Raw \<Rightarrow> Inl DeadAccess | Live x \<Rightarrow> Inr x | Beyond \<Rightarrow> Inl OutOfRange)"

text \<open>Placement \<^verbatim>\<open>new\<close> of an object of value \<open>x\<close> at offset \<open>i\<close>.\<close>

definition construct_at :: "'a RawMemory \<Rightarrow> nat \<Rightarrow> 'a \<Rightarrow> fault + 'a RawMemory" where
  "construct_at m i x =
     (if length m \<le> i then Inl OutOfRange
      else case m ! i of
             Raw \<Rightarrow> Inr (m[i := Live x])
           | Live y \<Rightarrow> Inl LiveConstruct
           | Beyond \<Rightarrow> Inl OutOfRange)"

text \<open>\<^verbatim>\<open>std::destroy_n(first, n)\<close>: destructors do not throw.\<close>

fun destroy_n :: "'a RawMemory \<Rightarrow> nat \<Rightarrow> nat \<Rightarrow> ('a, 'a RawMemory, unit) outcome" where
  "destroy_n m first 0 = Returns () m []"
| "destroy_n m first (Suc n) =
     (case read_obj m first of
        Inl f \<Rightarrow> Fault f
      | Inr x \<Rightarrow> emits [Dtor x] (destroy_n (m[first := Raw]) (Suc first) n))"

text \<open>\<^verbatim>\<open>std::ranges::destroy(first, last)\<close> on a pair of pointers.\<close>

definition ranges_destroy :: "'a RawMemory \<Rightarrow> nat \<Rightarrow> nat \<Rightarrow> ('a, 'a RawMemory, unit) outcome" where
  "ranges_destroy m first lst =
     (if lst < first then Fault BadRange else destroy_n m first (lst - first))"

text \<open>
  The argument from which a new element is built.  \<^verbatim>\<open>PushBack\<close>, \<^verbatim>\<open>Insert\<close>,
  \<^verbatim>\<open>EmplaceBack\<close> and \<^verbatim>\<open>Emplace\<close> take it by reference, so it may denote an object
  outside the vector or an element of the vector itself, by its slot.
\<close>

datatype 'a arg = Outside 'a | Element nat

text \<open>
  The constructor call that builds the new element: \<^verbatim>\<open>T(value)\<close> from a
  \<^verbatim>\<open>const T&\<close>, \<^verbatim>\<open>T(std::move(value))\<close> from a \<^verbatim>\<open>T&&\<close>, and
  \<^verbatim>\<open>T(std::forward<Args>(args)...)\<close>, which is one of the two when the pack is one
  reference to a T and otherwise some constructor that builds the value \<open>x\<close> from
  arguments it does not change.
\<close>

datatype 'a init = Copying "'a arg" | Moving "'a arg" | Building 'a

text \<open>The value of the source of the constructor call, read in the vector's block \<open>m\<close>
  when the argument is an element.\<close>

definition arg_value :: "'a RawMemory \<Rightarrow> 'a arg \<Rightarrow> fault + 'a" where
  "arg_value m a = (case a of Outside x \<Rightarrow> Inr x | Element i \<Rightarrow> read_obj m i)"

definition init_source :: "'a RawMemory \<Rightarrow> 'a init \<Rightarrow> fault + 'a" where
  "init_source m i = (case i of
      Copying a \<Rightarrow> arg_value m a
    | Moving a \<Rightarrow> arg_value m a
    | Building x \<Rightarrow> Inr x)"

definition init_throws :: "'a T_model \<Rightarrow> 'a init \<Rightarrow> 'a \<Rightarrow> bool" where
  "init_throws T i x = (case i of
      Copying a \<Rightarrow> copy_ctor_throws T x
    | Moving a \<Rightarrow> move_ctor_throws T x
    | Building y \<Rightarrow> args_ctor_throws T x)"

definition init_event :: "'a init \<Rightarrow> 'a \<Rightarrow> 'a event" where
  "init_event i x = (case i of
      Copying a \<Rightarrow> CopyCtor x
    | Moving a \<Rightarrow> MoveCtor x
    | Building y \<Rightarrow> ArgsCtor x)"

text \<open>The vector's block after the constructor call: a move from an element leaves a
  moved-from object in its slot.\<close>

definition after_init :: "'a T_model \<Rightarrow> 'a init \<Rightarrow> 'a RawMemory \<Rightarrow> 'a \<Rightarrow> 'a RawMemory" where
  "after_init T i m x = (case i of
      Moving (Element k) \<Rightarrow> m[k := Live (moved_from T x)]
    | Moving (Outside y) \<Rightarrow> m
    | Copying a \<Rightarrow> m
    | Building y \<Rightarrow> m)"

text \<open>
  \<^verbatim>\<open>new (addr) T(...)\<close> into a new block \<open>dst\<close> while the vector's block is \<open>src\<close>: the
  address is computed first (and may fail its assertion), then the constructor runs.
  The state is the pair (vector's block, new block).
\<close>

definition placement_new ::
  "'a T_model \<Rightarrow> 'a init \<Rightarrow> 'a RawMemory \<Rightarrow> 'a RawMemory \<Rightarrow> fault + nat
     \<Rightarrow> ('a, 'a RawMemory \<times> 'a RawMemory, unit) outcome" where
  "placement_new T i src dst addr =
     (case addr of
        Inl f \<Rightarrow> Fault f
      | Inr a \<Rightarrow>
          (case init_source src i of
             Inl f \<Rightarrow> Fault f
           | Inr x \<Rightarrow>
               if init_throws T i x then Throws T_exception (src, dst) []
               else (case construct_at dst a x of
                       Inl f \<Rightarrow> Fault f
                     | Inr dst' \<Rightarrow> Returns () (after_init T i src x, dst') [init_event i x])))"

text \<open>\<^verbatim>\<open>new (addr) T(...)\<close> into the vector's own block \<open>m\<close>.\<close>

definition placement_new_here ::
  "'a T_model \<Rightarrow> 'a init \<Rightarrow> 'a RawMemory \<Rightarrow> fault + nat \<Rightarrow> ('a, 'a RawMemory, unit) outcome" where
  "placement_new_here T i m addr =
     (case addr of
        Inl f \<Rightarrow> Fault f
      | Inr a \<Rightarrow>
          (case init_source m i of
             Inl f \<Rightarrow> Fault f
           | Inr x \<Rightarrow>
               if init_throws T i x then Throws T_exception m []
               else (case construct_at m a x of
                       Inl f \<Rightarrow> Fault f
                     | Inr m' \<Rightarrow> Returns () (after_init T i m' x) [init_event i x])))"

subsection \<open>The standard algorithms the container calls\<close>

text \<open>
  \<^verbatim>\<open>std::uninitialized_copy_n(first, n, d_first)\<close> from block \<open>src\<close> into another block
  \<open>dst\<close>.  The loop stops at the first copy constructor that throws, with \<open>cur\<close> the
  slot it was about to construct; the algorithm then destroys \<open>[d_first, cur)\<close> and
  rethrows.  The state is the pair (source, destination); copying leaves the source as
  it is.
\<close>

fun copy_construct_loop ::
  "'a T_model \<Rightarrow> 'a RawMemory \<Rightarrow> nat \<Rightarrow> nat \<Rightarrow> 'a RawMemory \<Rightarrow> nat
     \<Rightarrow> ('a, 'a RawMemory, nat) outcome" where
  "copy_construct_loop T src first 0 dst cur = Returns cur dst []"
| "copy_construct_loop T src first (Suc n) dst cur =
     (case read_obj src first of
        Inl f \<Rightarrow> Fault f
      | Inr x \<Rightarrow>
          if copy_ctor_throws T x then Throws T_exception dst []
          else (case construct_at dst cur x of
                  Inl f \<Rightarrow> Fault f
                | Inr dst' \<Rightarrow>
                    emits [CopyCtor x]
                      (copy_construct_loop T src (Suc first) n dst' (Suc cur))))"

text \<open>The number of objects a loop has constructed is the number of its constructor
  events: the catch block destroys that many slots from \<open>d_first\<close> on.\<close>

definition uninitialized_copy_n ::
  "'a T_model \<Rightarrow> 'a RawMemory \<Rightarrow> nat \<Rightarrow> nat \<Rightarrow> 'a RawMemory \<Rightarrow> nat
     \<Rightarrow> ('a, 'a RawMemory \<times> 'a RawMemory, unit) outcome" where
  "uninitialized_copy_n T src first n dst d_first =
     (case copy_construct_loop T src first n dst d_first of
        Returns cur dst' es \<Rightarrow> Returns () (src, dst') es
      | Throws x dst' es \<Rightarrow>
          (case destroy_n dst' d_first (length es) of
             Returns u dst'' es' \<Rightarrow> Throws x (src, dst'') (es @ es')
           | Throws y dst'' es' \<Rightarrow> Throws y (src, dst'') (es @ es')
           | Fault f \<Rightarrow> Fault f)
      | Fault f \<Rightarrow> Fault f)"

text \<open>
  \<^verbatim>\<open>std::uninitialized_move_n(first, n, d_first)\<close>: as above with the move constructor,
  which leaves a moved-from object in each source slot.  A move constructor that throws
  is taken to leave its source as it was.
\<close>

fun move_construct_loop ::
  "'a T_model \<Rightarrow> 'a RawMemory \<Rightarrow> nat \<Rightarrow> nat \<Rightarrow> 'a RawMemory \<Rightarrow> nat
     \<Rightarrow> ('a, 'a RawMemory \<times> 'a RawMemory, nat) outcome" where
  "move_construct_loop T src first 0 dst cur = Returns cur (src, dst) []"
| "move_construct_loop T src first (Suc n) dst cur =
     (case read_obj src first of
        Inl f \<Rightarrow> Fault f
      | Inr x \<Rightarrow>
          if move_ctor_throws T x then Throws T_exception (src, dst) []
          else (case construct_at dst cur x of
                  Inl f \<Rightarrow> Fault f
                | Inr dst' \<Rightarrow>
                    emits [MoveCtor x]
                      (move_construct_loop T (src[first := Live (moved_from T x)]) (Suc first) n
                         dst' (Suc cur))))"

definition uninitialized_move_n ::
  "'a T_model \<Rightarrow> 'a RawMemory \<Rightarrow> nat \<Rightarrow> nat \<Rightarrow> 'a RawMemory \<Rightarrow> nat
     \<Rightarrow> ('a, 'a RawMemory \<times> 'a RawMemory, unit) outcome" where
  "uninitialized_move_n T src first n dst d_first =
     (case move_construct_loop T src first n dst d_first of
        Returns cur (src', dst') es \<Rightarrow> Returns () (src', dst') es
      | Throws x (src', dst') es \<Rightarrow>
          (case destroy_n dst' d_first (length es) of
             Returns u dst'' es' \<Rightarrow> Throws x (src', dst'') (es @ es')
           | Throws y dst'' es' \<Rightarrow> Throws y (src', dst'') (es @ es')
           | Fault f \<Rightarrow> Fault f)
      | Fault f \<Rightarrow> Fault f)"

text \<open>\<^verbatim>\<open>std::uninitialized_value_construct_n(first, n)\<close> inside one block.\<close>

fun value_construct_loop ::
  "'a T_model \<Rightarrow> 'a RawMemory \<Rightarrow> nat \<Rightarrow> nat \<Rightarrow> ('a, 'a RawMemory, nat) outcome" where
  "value_construct_loop T m cur 0 = Returns cur m []"
| "value_construct_loop T m cur (Suc n) =
     (if default_ctor_throws T then Throws T_exception m []
      else (case construct_at m cur (default_value T) of
              Inl f \<Rightarrow> Fault f
            | Inr m' \<Rightarrow> emits [DefaultCtor] (value_construct_loop T m' (Suc cur) n)))"

definition uninitialized_value_construct_n ::
  "'a T_model \<Rightarrow> 'a RawMemory \<Rightarrow> nat \<Rightarrow> nat \<Rightarrow> ('a, 'a RawMemory, unit) outcome" where
  "uninitialized_value_construct_n T m first n =
     (case value_construct_loop T m first n of
        Returns cur m' es \<Rightarrow> Returns () m' es
      | Throws x m' es \<Rightarrow>
          (case destroy_n m' first (length es) of
             Returns u m'' es' \<Rightarrow> Throws x m'' (es @ es')
           | Throws y m'' es' \<Rightarrow> Throws y m'' (es @ es')
           | Fault f \<Rightarrow> Fault f)
      | Fault f \<Rightarrow> Fault f)"

text \<open>\<^verbatim>\<open>std::copy_n(first, n, result)\<close>: copy assignment onto the live objects of another
  block, with no clean-up when an assignment throws.  The state is the destination.\<close>

fun copy_n ::
  "'a T_model \<Rightarrow> 'a RawMemory \<Rightarrow> nat \<Rightarrow> nat \<Rightarrow> 'a RawMemory \<Rightarrow> nat
     \<Rightarrow> ('a, 'a RawMemory, unit) outcome" where
  "copy_n T src first 0 dst result = Returns () dst []"
| "copy_n T src first (Suc n) dst result =
     (case read_obj src first of
        Inl f \<Rightarrow> Fault f
      | Inr x \<Rightarrow>
          (case read_obj dst result of
             Inl f \<Rightarrow> Fault f
           | Inr y \<Rightarrow>
               if copy_assign_throws T x then Throws T_exception dst []
               else emits [CopyAssign x]
                      (copy_n T src (Suc first) n (dst[result := Live x]) (Suc result))))"

text \<open>Move assignment \<^verbatim>\<open>m[d] = std::move(m[s])\<close> between two slots of one block.\<close>

definition move_assign_slot ::
  "'a T_model \<Rightarrow> 'a RawMemory \<Rightarrow> nat \<Rightarrow> nat \<Rightarrow> ('a, 'a RawMemory, unit) outcome" where
  "move_assign_slot T m s d =
     (case read_obj m s of
        Inl f \<Rightarrow> Fault f
      | Inr x \<Rightarrow>
          (case read_obj m d of
             Inl f \<Rightarrow> Fault f
           | Inr y \<Rightarrow>
               if move_assign_throws T x then Throws T_exception m []
               else Returns () (m[d := Live x, s := Live (moved_from T x)]) [MoveAssign x]))"

text \<open>
  \<^verbatim>\<open>std::move(first, last, d_first)\<close> and \<^verbatim>\<open>std::move_backward(first, last, d_last)\<close>
  inside one block.  Both require \<open>[first, last)\<close> to be a range, that is
  \<open>first \<le> last\<close>; what a call with \<open>last < first\<close> does is not defined by the
  language (implementations differ: a loop that does nothing, or a \<^verbatim>\<open>memmove\<close> with a
  negative count), and is the fault \<open>BadRange\<close> here.
\<close>

fun move_loop ::
  "'a T_model \<Rightarrow> 'a RawMemory \<Rightarrow> nat \<Rightarrow> nat \<Rightarrow> nat \<Rightarrow> ('a, 'a RawMemory, unit) outcome" where
  "move_loop T m first 0 d_first = Returns () m []"
| "move_loop T m first (Suc n) d_first =
     seq (move_assign_slot T m first d_first) id
       (\<lambda>m'. move_loop T m' (Suc first) n (Suc d_first))"

definition std_move ::
  "'a T_model \<Rightarrow> 'a RawMemory \<Rightarrow> nat \<Rightarrow> nat \<Rightarrow> nat \<Rightarrow> ('a, 'a RawMemory, unit) outcome" where
  "std_move T m first lst d_first =
     (if lst < first then Fault BadRange else move_loop T m first (lst - first) d_first)"

fun move_backward_loop ::
  "'a T_model \<Rightarrow> 'a RawMemory \<Rightarrow> nat \<Rightarrow> nat \<Rightarrow> nat \<Rightarrow> ('a, 'a RawMemory, unit) outcome" where
  "move_backward_loop T m 0 lst d_last = Returns () m []"
| "move_backward_loop T m (Suc n) lst d_last =
     (if lst = 0 \<or> d_last = 0 then Fault OutOfRange
      else seq (move_assign_slot T m (lst - 1) (d_last - 1)) id
             (\<lambda>m'. move_backward_loop T m' n (lst - 1) (d_last - 1)))"

definition move_backward ::
  "'a T_model \<Rightarrow> 'a RawMemory \<Rightarrow> nat \<Rightarrow> nat \<Rightarrow> nat \<Rightarrow> ('a, 'a RawMemory, unit) outcome" where
  "move_backward T m first lst d_last =
     (if lst < first then Fault BadRange else move_backward_loop T m (lst - first) lst d_last)"

section \<open>The vector\<close>

text \<open>The members \<^verbatim>\<open>data_\<close> and \<^verbatim>\<open>size_\<close> are the fields \<open>m_data\<close> and \<open>m_size\<close>.\<close>

record 'a Vector =
  m_data :: "'a RawMemory"
  m_size :: nat

text \<open>Iterators are pointers into \<^verbatim>\<open>data_\<close>, so offsets from \<^verbatim>\<open>begin()\<close>, which is
  offset 0; \<^verbatim>\<open>std::distance(cbegin(), pos)\<close> is \<open>pos\<close> itself.\<close>

definition Size :: "'a Vector \<Rightarrow> nat" where
  "Size v = m_size v"

definition Capacity :: "'a Vector \<Rightarrow> nat" where
  "Capacity v = length (m_data v)"

definition cend :: "'a Vector \<Rightarrow> nat" where
  "cend v = m_size v"

text \<open>\<^verbatim>\<open>operator[]\<close>: the value of the object the returned reference denotes.\<close>

definition Vector_at :: "'a Vector \<Rightarrow> nat \<Rightarrow> fault + 'a" where
  "Vector_at v index =
     (if index < m_size v then
        (case RawMemory_at (m_data v) index of Inl f \<Rightarrow> Inl f | Inr i \<Rightarrow> read_obj (m_data v) i)
      else Inl AssertFail)"

subsection \<open>Construction and destruction\<close>

definition Vector_default :: "'a Vector" where
  "Vector_default = \<lparr>m_data = [], m_size = 0\<rparr>"

text \<open>\<^verbatim>\<open>explicit Vector(size_t size)\<close> and \<^verbatim>\<open>Vector(const Vector& other)\<close>.  When a
  constructor throws there is no object: the state is \<open>None\<close>.\<close>

definition Vector_sized :: "'a T_model \<Rightarrow> nat \<Rightarrow> ('a, 'a Vector option, unit) outcome" where
  "Vector_sized T n =
     (case RawMemory_new T n of
        None \<Rightarrow> Throws bad_alloc None []
      | Some m \<Rightarrow>
          seq (uninitialized_value_construct_n T m 0 n) (\<lambda>m'. None)
            (\<lambda>m'. Returns () (Some \<lparr>m_data = m', m_size = n\<rparr>) []))"

definition Vector_copy :: "'a T_model \<Rightarrow> 'a Vector \<Rightarrow> ('a, 'a Vector option, unit) outcome" where
  "Vector_copy T other =
     (case RawMemory_new T (m_size other) of
        None \<Rightarrow> Throws bad_alloc None []
      | Some m \<Rightarrow>
          seq (uninitialized_copy_n T (m_data other) 0 (m_size other) m 0) (\<lambda>p. None)
            (\<lambda>(src, m'). Returns () (Some \<lparr>m_data = m', m_size = m_size other\<rparr>) []))"

text \<open>\<^verbatim>\<open>~Vector()\<close>: the state is the block as it is released.\<close>

definition Vector_destroy :: "'a Vector \<Rightarrow> ('a, 'a RawMemory, unit) outcome" where
  "Vector_destroy v = destroy_n (m_data v) 0 (m_size v)"

subsection \<open>Operations on two vectors\<close>

text \<open>
  Move construction, the assignments and \<^verbatim>\<open>Swap\<close> involve two vector objects, and the
  assignments compare their addresses (\<^verbatim>\<open>this != &rhs\<close>).  These operations work on a
  store that maps the address of a vector object to its state.
\<close>

type_synonym 'a store = "nat \<Rightarrow> 'a Vector"

text \<open>\<^verbatim>\<open>Vector(Vector&& other) noexcept\<close> builds the object at \<open>this\<close>: both
  \<^verbatim>\<open>std::exchange\<close> calls leave null, 0 and 0 in \<open>other\<close>.\<close>

definition Vector_move :: "'a store \<Rightarrow> nat \<Rightarrow> nat \<Rightarrow> 'a store" where
  "Vector_move s this other =
     (let w = s other in
      (s(other := \<lparr>m_data = [], m_size = 0\<rparr>))(this := \<lparr>m_data = m_data w, m_size = m_size w\<rparr>))"

definition Swap :: "'a store \<Rightarrow> nat \<Rightarrow> nat \<Rightarrow> 'a store" where
  "Swap s this other =
     (let a = s this; b = s other in
      (s(this := \<lparr>m_data = m_data b, m_size = m_size b\<rparr>))
        (other := \<lparr>m_data = m_data a, m_size = m_size a\<rparr>))"

text \<open>\<^verbatim>\<open>Vector& operator=(Vector&& rhs) noexcept\<close>.\<close>

definition move_assign :: "'a store \<Rightarrow> nat \<Rightarrow> nat \<Rightarrow> 'a store" where
  "move_assign s this rhs = (if this \<noteq> rhs then Swap s this rhs else s)"

text \<open>\<^verbatim>\<open>Vector& operator=(const Vector& rhs)\<close>.\<close>

definition copy_assign ::
  "'a T_model \<Rightarrow> 'a store \<Rightarrow> nat \<Rightarrow> nat \<Rightarrow> ('a, 'a store, unit) outcome" where
  "copy_assign T s this rhs =
     (if this \<noteq> rhs then
        (let v = s this; r = s rhs in
         if m_size r > length (m_data v) then
           (case RawMemory_new T (m_size r) of
              None \<Rightarrow> Throws bad_alloc s []
            | Some new_data \<Rightarrow>
                seq (uninitialized_copy_n T (m_data r) 0 (m_size r) new_data 0) (\<lambda>p. s)
                  (\<lambda>(src, new_data).
                seq (destroy_n (m_data v) 0 (m_size v)) (\<lambda>old. s(this := v\<lparr>m_data := old\<rparr>))
                  (\<lambda>old. Returns () (s(this := \<lparr>m_data = new_data, m_size = m_size r\<rparr>)) [])))
         else
           seq (copy_n T (m_data r) 0 (min (m_size v) (m_size r)) (m_data v) 0)
               (\<lambda>m. s(this := v\<lparr>m_data := m\<rparr>))
             (\<lambda>m.
                if m_size r < m_size v then
                  seq (ranges_destroy m (m_size r) (Capacity v)) (\<lambda>m'. s(this := v\<lparr>m_data := m'\<rparr>))
                    (\<lambda>m'. Returns () (s(this := \<lparr>m_data = m', m_size = m_size r\<rparr>)) [])
                else if m_size r > m_size v then
                  seq (uninitialized_copy_n T (m_data r) (m_size v) (m_size r - m_size v) m (m_size v))
                      (\<lambda>(src, m'). s(this := v\<lparr>m_data := m'\<rparr>))
                    (\<lambda>(src, m'). Returns () (s(this := \<lparr>m_data = m', m_size = m_size r\<rparr>)) [])
                else Returns () (s(this := \<lparr>m_data = m, m_size = m_size r\<rparr>)) []))
      else Returns () s [])"

subsection \<open>Growth\<close>

text \<open>\<^verbatim>\<open>MoveOrCopyToMemory(from, n, to)\<close>, from the vector's block \<open>src\<close> into \<open>dst\<close>.\<close>

definition MoveOrCopyToMemory ::
  "'a T_model \<Rightarrow> 'a RawMemory \<Rightarrow> nat \<Rightarrow> nat \<Rightarrow> 'a RawMemory \<Rightarrow> nat
     \<Rightarrow> ('a, 'a RawMemory \<times> 'a RawMemory, unit) outcome" where
  "MoveOrCopyToMemory T src from n dst to =
     (if is_nothrow_move_constructible T \<or> \<not> is_copy_constructible T
      then uninitialized_move_n T src from n dst to
      else uninitialized_copy_n T src from n dst to)"

text \<open>\<^verbatim>\<open>Reserve(new_capacity)\<close>.  The last statement, \<^verbatim>\<open>data_ = std::move(new_data)\<close>,
  makes the new block the vector's; the old block is dropped.\<close>

definition Reserve :: "'a T_model \<Rightarrow> 'a Vector \<Rightarrow> nat \<Rightarrow> ('a, 'a Vector, unit) outcome" where
  "Reserve T v new_capacity =
     (if new_capacity \<le> length (m_data v) then Returns () v []
      else
        (case RawMemory_new T new_capacity of
           None \<Rightarrow> Throws bad_alloc v []
         | Some new_data \<Rightarrow>
             seq (if is_nothrow_move_constructible T \<or> \<not> is_copy_constructible T
                  then uninitialized_move_n T (m_data v) 0 (m_size v) new_data 0
                  else uninitialized_copy_n T (m_data v) 0 (m_size v) new_data 0)
                 (\<lambda>(old, new_data). v\<lparr>m_data := old\<rparr>)
               (\<lambda>(old, new_data).
             seq (destroy_n old 0 (m_size v)) (\<lambda>old'. v\<lparr>m_data := old'\<rparr>)
               (\<lambda>old'. Returns () (v\<lparr>m_data := new_data\<rparr>) []))))"

text \<open>\<^verbatim>\<open>Resize(new_size)\<close>.\<close>

definition Resize :: "'a T_model \<Rightarrow> 'a Vector \<Rightarrow> nat \<Rightarrow> ('a, 'a Vector, unit) outcome" where
  "Resize T v new_size =
     (if new_size < m_size v then
        seq (destroy_n (m_data v) new_size (m_size v - new_size)) (\<lambda>m. v\<lparr>m_data := m\<rparr>)
          (\<lambda>m. Returns () \<lparr>m_data = m, m_size = new_size\<rparr> [])
      else if new_size < Capacity v then
        seq (uninitialized_value_construct_n T (m_data v) (m_size v) (new_size - m_size v))
            (\<lambda>m. v\<lparr>m_data := m\<rparr>)
          (\<lambda>m. Returns () \<lparr>m_data = m, m_size = new_size\<rparr> [])
      else
        seq (Reserve T v new_size) id
          (\<lambda>v'.
        seq (uninitialized_value_construct_n T (m_data v') (m_size v') (new_size - m_size v'))
            (\<lambda>m. v'\<lparr>m_data := m\<rparr>)
          (\<lambda>m. Returns () \<lparr>m_data = m, m_size = new_size\<rparr> [])))"

subsection \<open>Adding and removing at the end\<close>

text \<open>
  \<^verbatim>\<open>PushBack(const T&)\<close>, \<^verbatim>\<open>PushBack(T&&)\<close> and \<^verbatim>\<open>EmplaceBack(Args&&...)\<close> have the same
  body up to the constructor call that builds the new element: \<open>PushBack_body\<close> is
  that body, with the constructor call as a parameter.  When the vector grows, the new
  element is built first, so a move from an element of the vector happens before that
  element is relocated.
\<close>

definition PushBack_body ::
  "'a T_model \<Rightarrow> 'a init \<Rightarrow> 'a Vector \<Rightarrow> ('a, 'a Vector, unit) outcome" where
  "PushBack_body T c v =
     (if Capacity v = m_size v then
        (case RawMemory_new T (if m_size v = 0 then 1 else m_size v * 2) of
           None \<Rightarrow> Throws bad_alloc v []
         | Some new_data \<Rightarrow>
             seq (placement_new T c (m_data v) new_data (RawMemory_plus new_data (m_size v)))
                 (\<lambda>(old, new_data). v\<lparr>m_data := old\<rparr>)
               (\<lambda>(old, new_data).
             seq (if is_nothrow_move_constructible T \<or> \<not> is_copy_constructible T
                  then uninitialized_move_n T old 0 (m_size v) new_data 0
                  else uninitialized_copy_n T old 0 (m_size v) new_data 0)
                 (\<lambda>(old, new_data). v\<lparr>m_data := old\<rparr>)
               (\<lambda>(old, new_data).
             seq (destroy_n old 0 (m_size v)) (\<lambda>old'. v\<lparr>m_data := old'\<rparr>)
               (\<lambda>old'. Returns () \<lparr>m_data = new_data, m_size = m_size v + 1\<rparr> []))))
      else
        seq (placement_new_here T c (m_data v) (RawMemory_plus (m_data v) (m_size v)))
            (\<lambda>m. v\<lparr>m_data := m\<rparr>)
          (\<lambda>m. Returns () \<lparr>m_data = m, m_size = m_size v + 1\<rparr> []))"

text \<open>\<^verbatim>\<open>PushBack(const T&)\<close> copies from its argument and does not change it, so the
  argument is its value.  The argument of \<^verbatim>\<open>PushBack(T&&)\<close> is the object moved from.\<close>

definition PushBack :: "'a T_model \<Rightarrow> 'a Vector \<Rightarrow> 'a \<Rightarrow> ('a, 'a Vector, unit) outcome" where
  "PushBack T v val = PushBack_body T (Copying (Outside val)) v"

definition PushBack_rvalue ::
  "'a T_model \<Rightarrow> 'a Vector \<Rightarrow> 'a arg \<Rightarrow> ('a, 'a Vector, unit) outcome" where
  "PushBack_rvalue T v val = PushBack_body T (Moving val) v"

text \<open>\<^verbatim>\<open>EmplaceBack\<close> returns \<^verbatim>\<open>data_[size_ - 1]\<close>: the result is the offset of that
  slot.\<close>

definition EmplaceBack ::
  "'a T_model \<Rightarrow> 'a Vector \<Rightarrow> 'a init \<Rightarrow> ('a, 'a Vector, nat) outcome" where
  "EmplaceBack T v args =
     seq (PushBack_body T args v) id
       (\<lambda>v'. case RawMemory_at (m_data v') (size_t_pred (m_size v')) of
                Inl f \<Rightarrow> Fault f
              | Inr i \<Rightarrow> Returns i v' [])"

definition PopBack :: "'a Vector \<Rightarrow> ('a, 'a Vector, unit) outcome" where
  "PopBack v =
     (if m_size v = 0 then Returns () v []
      else
        (case RawMemory_at (m_data v) (m_size v - 1) of
           Inl f \<Rightarrow> Fault f
         | Inr i \<Rightarrow>
             seq (destroy_n (m_data v) i 1) (\<lambda>m. v\<lparr>m_data := m\<rparr>)
               (\<lambda>m. Returns () \<lparr>m_data = m, m_size = m_size v - 1\<rparr> [])))"

subsection \<open>Insertion and removal at a position\<close>

text \<open>
  The branch of \<^verbatim>\<open>Emplace\<close> and \<^verbatim>\<open>Insert\<close> that reallocates: the new element is
  built at \<open>index\<close> of the new block, then the elements before and from \<open>index\<close> are
  relocated by two calls of \<^verbatim>\<open>MoveOrCopyToMemory\<close>.
\<close>

definition insert_realloc ::
  "'a T_model \<Rightarrow> 'a init \<Rightarrow> 'a Vector \<Rightarrow> nat \<Rightarrow> ('a, 'a Vector, unit) outcome" where
  "insert_realloc T c v index =
     (case RawMemory_new T (if m_size v = 0 then 1 else m_size v * 2) of
        None \<Rightarrow> Throws bad_alloc v []
      | Some new_data \<Rightarrow>
          seq (placement_new T c (m_data v) new_data (RawMemory_plus new_data index))
              (\<lambda>(old, new_data). v\<lparr>m_data := old\<rparr>)
            (\<lambda>(old, new_data).
          seq (MoveOrCopyToMemory T old 0 index new_data 0)
              (\<lambda>(old, new_data). v\<lparr>m_data := old\<rparr>)
            (\<lambda>(old, new_data).
          seq (MoveOrCopyToMemory T old index (m_size v - index) new_data (index + 1))
              (\<lambda>(old, new_data). v\<lparr>m_data := old\<rparr>)
            (\<lambda>(old, new_data).
          seq (destroy_n old 0 (m_size v)) (\<lambda>old'. v\<lparr>m_data := old'\<rparr>)
            (\<lambda>old'. Returns () (v\<lparr>m_data := new_data\<rparr>) [])))))"

text \<open>\<^verbatim>\<open>new (data_ + size_) T(std::move(data_[size_ - 1]))\<close>.\<close>

definition move_last_up :: "'a T_model \<Rightarrow> 'a Vector \<Rightarrow> ('a, 'a RawMemory, unit) outcome" where
  "move_last_up T v =
     (case RawMemory_plus (m_data v) (m_size v) of
        Inl f \<Rightarrow> Fault f
      | Inr a \<Rightarrow>
          (case RawMemory_at (m_data v) (size_t_pred (m_size v)) of
             Inl f \<Rightarrow> Fault f
           | Inr l \<Rightarrow>
               (case read_obj (m_data v) l of
                  Inl f \<Rightarrow> Fault f
                | Inr y \<Rightarrow>
                    if move_ctor_throws T y then Throws T_exception (m_data v) []
                    else (case construct_at (m_data v) a y of
                            Inl f \<Rightarrow> Fault f
                          | Inr m \<Rightarrow>
                              Returns () (m[l := Live (moved_from T y)]) [MoveCtor y]))))"

text \<open>\<^verbatim>\<open>data_[index] = std::move(new_item)\<close>, with \<open>x\<close> the value of the local.\<close>

definition assign_new_item ::
  "'a T_model \<Rightarrow> 'a RawMemory \<Rightarrow> nat \<Rightarrow> 'a \<Rightarrow> ('a, 'a RawMemory, unit) outcome" where
  "assign_new_item T m index x =
     (case RawMemory_at m index of
        Inl f \<Rightarrow> Fault f
      | Inr i \<Rightarrow>
          (case read_obj m i of
             Inl f \<Rightarrow> Fault f
           | Inr y \<Rightarrow>
               if move_assign_throws T x then Throws T_exception m []
               else Returns () (m[i := Live x]) [MoveAssign x]))"

text \<open>
  The branch that inserts in place: the local \<^verbatim>\<open>new_item\<close> is built, the last element
  is move-constructed into slot \<^verbatim>\<open>size_\<close>, \<^verbatim>\<open>std::move_backward(begin() + index,
  end() - 1, end())\<close> shifts the rest, and \<^verbatim>\<open>new_item\<close> is move-assigned to slot
  \<open>index\<close>.
\<close>

definition insert_in_place ::
  "'a T_model \<Rightarrow> 'a init \<Rightarrow> 'a Vector \<Rightarrow> nat \<Rightarrow> ('a, 'a Vector, unit) outcome" where
  "insert_in_place T c v index =
     (case init_source (m_data v) c of
        Inl f \<Rightarrow> Fault f
      | Inr x \<Rightarrow>
          if init_throws T c x then Throws T_exception v []
          else
            emits [init_event c x]
              (leave_scope (Dtor (moved_from T x)) (Dtor x)
                 (seq (move_last_up T (v\<lparr>m_data := after_init T c (m_data v) x\<rparr>))
                      (\<lambda>m. v\<lparr>m_data := m\<rparr>)
                    (\<lambda>m.
                  seq (move_backward T m index (cend v - 1) (cend v)) (\<lambda>m. v\<lparr>m_data := m\<rparr>)
                    (\<lambda>m.
                  seq (assign_new_item T m index x) (\<lambda>m. v\<lparr>m_data := m\<rparr>)
                    (\<lambda>m. Returns () (v\<lparr>m_data := m\<rparr>) []))))))"

text \<open>\<^verbatim>\<open>Emplace(pos, args...)\<close>; the result is the returned iterator
  \<^verbatim>\<open>begin() + index\<close>.\<close>

definition Emplace ::
  "'a T_model \<Rightarrow> 'a Vector \<Rightarrow> nat \<Rightarrow> 'a init \<Rightarrow> ('a, 'a Vector, nat) outcome" where
  "Emplace T v pos args =
     (if pos \<le> cend v then
        seq (if Capacity v = m_size v then insert_realloc T args v pos
             else if pos = cend v then
               seq (placement_new_here T args (m_data v) (RawMemory_plus (m_data v) (m_size v)))
                   (\<lambda>m. v\<lparr>m_data := m\<rparr>)
                 (\<lambda>m. Returns () (v\<lparr>m_data := m\<rparr>) [])
             else insert_in_place T args v pos) id
          (\<lambda>v'. Returns pos (v'\<lparr>m_size := m_size v' + 1\<rparr>) [])
      else Fault AssertFail)"

text \<open>\<^verbatim>\<open>Insert(pos, const T&)\<close> and \<^verbatim>\<open>Insert(pos, T&&)\<close>: one body, up to the
  constructor call.\<close>

definition Insert_body ::
  "'a T_model \<Rightarrow> 'a init \<Rightarrow> 'a Vector \<Rightarrow> nat \<Rightarrow> ('a, 'a Vector, nat) outcome" where
  "Insert_body T c v pos =
     (if pos \<le> cend v then
        seq (if Capacity v = m_size v then insert_realloc T c v pos
             else insert_in_place T c v pos) id
          (\<lambda>v'. Returns pos (v'\<lparr>m_size := m_size v' + 1\<rparr>) [])
      else Fault AssertFail)"

definition Insert :: "'a T_model \<Rightarrow> 'a Vector \<Rightarrow> nat \<Rightarrow> 'a \<Rightarrow> ('a, 'a Vector, nat) outcome" where
  "Insert T v pos val = Insert_body T (Copying (Outside val)) v pos"

definition Insert_rvalue ::
  "'a T_model \<Rightarrow> 'a Vector \<Rightarrow> nat \<Rightarrow> 'a arg \<Rightarrow> ('a, 'a Vector, nat) outcome" where
  "Insert_rvalue T v pos val = Insert_body T (Moving val) v pos"

text \<open>\<^verbatim>\<open>Erase(pos)\<close>: no assertion on \<open>pos\<close>.\<close>

definition Erase :: "'a T_model \<Rightarrow> 'a Vector \<Rightarrow> nat \<Rightarrow> ('a, 'a Vector, nat) outcome" where
  "Erase T v pos =
     seq (std_move T (m_data v) (pos + 1) (cend v) pos) (\<lambda>m. v\<lparr>m_data := m\<rparr>)
       (\<lambda>m.
     seq (PopBack (v\<lparr>m_data := m\<rparr>)) id
       (\<lambda>v'. Returns pos v' []))"

section \<open>The representation invariant\<close>

text \<open>
  The slots \<open>[0, size)\<close> hold live objects, the slots \<open>[size, capacity)\<close> are raw, and the
  capacity is a \<^verbatim>\<open>size_t\<close>.  \<open>elems\<close> are the values of the live objects, in order.
\<close>

fun is_live :: "'a slot \<Rightarrow> bool" where
  "is_live (Live x) = True"
| "is_live Raw = False"
| "is_live Beyond = False"

fun the_live :: "'a slot \<Rightarrow> 'a" where
  "the_live (Live x) = x"
| "the_live Raw = undefined"
| "the_live Beyond = undefined"

definition elems :: "'a Vector \<Rightarrow> 'a list" where
  "elems v = map the_live (take (m_size v) (m_data v))"

definition wf :: "'a Vector \<Rightarrow> bool" where
  "wf v = (m_size v \<le> length (m_data v) \<and> length (m_data v) \<le> SIZE_MAX \<and>
           list_all is_live (take (m_size v) (m_data v)) \<and>
           list_all (\<lambda>s. s = Raw) (drop (m_size v) (m_data v)))"

text \<open>The vector with the given elements and capacity.\<close>

definition mk :: "'a list \<Rightarrow> nat \<Rightarrow> 'a Vector" where
  "mk xs cap = \<lparr>m_data = map Live xs @ replicate (cap - length xs) Raw, m_size = length xs\<rparr>"

text \<open>
  A request for \<open>n\<close> elements fits when its byte count is a \<^verbatim>\<open>size_t\<close>.  The block of a
  vector is an object, and no object has more than \<^verbatim>\<open>PTRDIFF_MAX\<close> bytes; so twice the
  capacity of a vector, and one element, always fit.
\<close>

definition PTRDIFF_MAX :: nat where
  "PTRDIFF_MAX = 2 ^ 63 - 1"

definition fits :: "'a T_model \<Rightarrow> nat \<Rightarrow> bool" where
  "fits T n = (0 < sizeof_T T \<and> n * sizeof_T T \<le> SIZE_MAX)"

definition in_memory :: "'a T_model \<Rightarrow> 'a Vector \<Rightarrow> bool" where
  "in_memory T v = (0 < sizeof_T T \<and> sizeof_T T \<le> PTRDIFF_MAX \<and>
                    Capacity v * sizeof_T T \<le> PTRDIFF_MAX)"

text \<open>
  The argument of an operation, seen from the elements \<open>xs\<close> of the vector: whether it
  denotes an object, the value the new element is built from, and the elements after
  the constructor call.
\<close>

definition arg_ok :: "'a list \<Rightarrow> 'a arg \<Rightarrow> bool" where
  "arg_ok xs a = (case a of Outside x \<Rightarrow> True | Element k \<Rightarrow> k < length xs)"

definition arg_of :: "'a list \<Rightarrow> 'a arg \<Rightarrow> 'a" where
  "arg_of xs a = (case a of Outside x \<Rightarrow> x | Element k \<Rightarrow> xs ! k)"

definition init_ok :: "'a list \<Rightarrow> 'a init \<Rightarrow> bool" where
  "init_ok xs i = (case i of Copying a \<Rightarrow> arg_ok xs a | Moving a \<Rightarrow> arg_ok xs a
                   | Building x \<Rightarrow> True)"

definition init_value :: "'a list \<Rightarrow> 'a init \<Rightarrow> 'a" where
  "init_value xs i = (case i of Copying a \<Rightarrow> arg_of xs a | Moving a \<Rightarrow> arg_of xs a
                      | Building x \<Rightarrow> x)"

definition after_elems :: "'a T_model \<Rightarrow> 'a init \<Rightarrow> 'a list \<Rightarrow> 'a list" where
  "after_elems T i xs = (case i of
      Moving (Element k) \<Rightarrow> xs[k := moved_from T (xs ! k)]
    | Moving (Outside y) \<Rightarrow> xs
    | Copying a \<Rightarrow> xs
    | Building y \<Rightarrow> xs)"

text \<open>The vector after the constructor call of the new element alone: as it was, but
  for the element that the call has moved from.\<close>

definition husk_left :: "'a T_model \<Rightarrow> 'a init \<Rightarrow> 'a Vector \<Rightarrow> 'a Vector" where
  "husk_left T i v = (case init_source (m_data v) i of
      Inl f \<Rightarrow> v
    | Inr x \<Rightarrow> v\<lparr>m_data := after_init T i (m_data v) x\<rparr>)"

text \<open>Whether the constructor call moves from an element of the vector.\<close>

definition moves_from_element :: "'a init \<Rightarrow> bool" where
  "moves_from_element i = (case i of
      Moving (Element k) \<Rightarrow> True
    | Moving (Outside y) \<Rightarrow> False
    | Copying a \<Rightarrow> False
    | Building y \<Rightarrow> False)"

text \<open>An element type like \<^verbatim>\<open>int\<close>: 4 bytes, nothing throws, a move leaves the
  value.\<close>

definition plain :: "'a \<Rightarrow> 'a T_model" where
  "plain d = \<lparr>is_nothrow_move_constructible = True, is_copy_constructible = True,
     copy_ctor_throws = (\<lambda>x. False), move_ctor_throws = (\<lambda>x. False),
     args_ctor_throws = (\<lambda>x. False), default_ctor_throws = False,
     copy_assign_throws = (\<lambda>x. False), move_assign_throws = (\<lambda>x. False),
     moved_from = (\<lambda>x. x), default_value = d, alloc_throws = (\<lambda>n. False),
     sizeof_T = 4\<rparr>"

text \<open>
  What the transfer policy of the growth paths means for one element \<open>x\<close>: whether
  relocating it throws, what the old slot holds afterwards, and the constructor call
  that is recorded.
\<close>

definition relocation_throws :: "'a T_model \<Rightarrow> 'a \<Rightarrow> bool" where
  "relocation_throws T x =
     (if is_nothrow_move_constructible T \<or> \<not> is_copy_constructible T
      then move_ctor_throws T x else copy_ctor_throws T x)"

definition left_behind :: "'a T_model \<Rightarrow> 'a \<Rightarrow> 'a" where
  "left_behind T x =
     (if is_nothrow_move_constructible T \<or> \<not> is_copy_constructible T
      then moved_from T x else x)"

definition relocation_event :: "'a T_model \<Rightarrow> 'a \<Rightarrow> 'a event" where
  "relocation_event T x =
     (if is_nothrow_move_constructible T \<or> \<not> is_copy_constructible T
      then MoveCtor x else CopyCtor x)"

text \<open>
  The relocation of the elements \<open>xs\<close> as the specification words it: every element is
  moved if T's move constructor cannot throw or T is not copyable, and copied otherwise;
  then the old objects (moved-from, or still the originals) are destroyed.  This is
  the statement the growth paths of the source are compared with.
\<close>

definition policy_trace :: "'a T_model \<Rightarrow> 'a list \<Rightarrow> 'a event list" where
  "policy_trace T xs =
     (if is_nothrow_move_constructible T \<or> \<not> is_copy_constructible T
      then map MoveCtor xs @ map (\<lambda>x. Dtor (moved_from T x)) xs
      else map CopyCtor xs @ map Dtor xs)"

text \<open>An element type of 4 bytes that is copyable, whose move constructor is not
  \<^verbatim>\<open>noexcept\<close> and leaves the value \<open>d\<close> behind, and whose copy constructor throws on
  the value \<open>bad\<close>.\<close>

definition fragile :: "'a \<Rightarrow> 'a \<Rightarrow> 'a T_model" where
  "fragile d bad = \<lparr>is_nothrow_move_constructible = False, is_copy_constructible = True,
     copy_ctor_throws = (\<lambda>x. x = bad), move_ctor_throws = (\<lambda>x. False),
     args_ctor_throws = (\<lambda>x. False), default_ctor_throws = False,
     copy_assign_throws = (\<lambda>x. False), move_assign_throws = (\<lambda>x. False),
     moved_from = (\<lambda>x. d), default_value = d, alloc_throws = (\<lambda>n. False),
     sizeof_T = 4\<rparr>"

text \<open>The capacities observed while the values \<open>xs\<close> are pushed one at a time: before
  the first push and after each one.\<close>

fun capacities_while_pushing :: "'a T_model \<Rightarrow> 'a Vector \<Rightarrow> 'a list \<Rightarrow> nat list" where
  "capacities_while_pushing T v [] = [Capacity v]"
| "capacities_while_pushing T v (x # xs) =
     Capacity v # (case PushBack T v x of
                     Returns u v' es \<Rightarrow> capacities_while_pushing T v' xs
                   | Throws e v' es \<Rightarrow> []
                   | Fault f \<Rightarrow> [])"

section \<open>Properties of the algorithms\<close>

subsection \<open>Sequencing\<close>

lemma emits_simps:
  "emits es0 (Returns y s es) = Returns y s (es0 @ es)"
  "emits es0 (Throws x s es) = Throws x s (es0 @ es)"
  "emits es0 (Fault f) = Fault f"
  by (simp_all add: emits_def)

lemma seq_simps:
  "seq (Returns y s es) u k = emits es (k s)"
  "seq (Throws x s es) u k = Throws x (u s) es"
  "seq (Fault f) u k = Fault f"
  by (simp_all add: seq_def)

lemma leave_scope_simps:
  "leave_scope a b (Returns y s es) = Returns y s (es @ [a])"
  "leave_scope a b (Throws x s es) = Throws x s (es @ [b])"
  "leave_scope a b (Fault f) = Fault f"
  by (simp_all add: leave_scope_def)

subsection \<open>Destruction and construction of a range\<close>

lemma read_obj_live: "read_obj (pre @ Live x # post) (length pre) = Inr x"
  by (simp add: read_obj_def)

lemma construct_at_raw:
  "construct_at (pre @ Raw # post) (length pre) x = Inr (pre @ Live x # post)"
  by (simp add: construct_at_def)

lemma destroy_n_live:
  "destroy_n (pre @ map Live xs @ post) (length pre) (length xs)
     = Returns () (pre @ replicate (length xs) Raw @ post) (map Dtor xs)"
proof (induction xs arbitrary: pre)
  case Nil
  then show ?case by simp
next
  case (Cons x xs)
  have "destroy_n ((pre @ [Raw]) @ map Live xs @ post) (length (pre @ [Raw])) (length xs)
     = Returns () ((pre @ [Raw]) @ replicate (length xs) Raw @ post) (map Dtor xs)"
    by (rule Cons.IH)
  then show ?case
    by (simp add: read_obj_live emits_simps)
qed

lemma destroy_n_no_throw: "destroy_n m first n \<noteq> Throws e s es"
proof (induction n arbitrary: m first e s es)
  case 0
  then show ?case by simp
next
  case (Suc n)
  show ?case
  proof (cases "read_obj m first")
    case (Inl f)
    then show ?thesis by simp
  next
    case (Inr x)
    then show ?thesis
      using Suc.IH [of "m[first := Raw]" "Suc first"]
      by (cases "destroy_n (m[first := Raw]) (Suc first) n") (auto simp: emits_simps)
  qed
qed

lemma copy_construct_loop_ok:
  assumes "\<forall>x\<in>set xs. \<not> copy_ctor_throws T x"
  shows "copy_construct_loop T (spre @ map Live xs @ spost) (length spre) (length xs)
           (dpre @ replicate (length xs) Raw @ dpost) (length dpre)
         = Returns (length dpre + length xs) (dpre @ map Live xs @ dpost) (map CopyCtor xs)"
  using assms
proof (induction xs arbitrary: spre dpre)
  case Nil
  then show ?case by simp
next
  case (Cons x xs)
  have "copy_construct_loop T ((spre @ [Live x]) @ map Live xs @ spost) (length (spre @ [Live x]))
           (length xs) ((dpre @ [Live x]) @ replicate (length xs) Raw @ dpost)
           (length (dpre @ [Live x]))
         = Returns (length (dpre @ [Live x]) + length xs)
             ((dpre @ [Live x]) @ map Live xs @ dpost) (map CopyCtor xs)"
    using Cons.prems by (intro Cons.IH) simp
  then show ?case
    using Cons.prems by (simp add: read_obj_live construct_at_raw emits_simps)
qed

lemma copy_construct_loop_throws:
  assumes "\<forall>x\<in>set ys. \<not> copy_ctor_throws T x" and "copy_ctor_throws T z"
  shows "copy_construct_loop T (spre @ map Live (ys @ z # zs) @ spost) (length spre)
           (length (ys @ z # zs)) (dpre @ replicate (length (ys @ z # zs)) Raw @ dpost)
           (length dpre)
         = Throws T_exception
             (dpre @ map Live ys @ replicate (length (z # zs)) Raw @ dpost) (map CopyCtor ys)"
  using assms
proof (induction ys arbitrary: spre dpre)
  case Nil
  then show ?case by (simp add: read_obj_live)
next
  case (Cons y ys)
  have "copy_construct_loop T ((spre @ [Live y]) @ map Live (ys @ z # zs) @ spost)
           (length (spre @ [Live y])) (length (ys @ z # zs))
           ((dpre @ [Live y]) @ replicate (length (ys @ z # zs)) Raw @ dpost)
           (length (dpre @ [Live y]))
         = Throws T_exception
             ((dpre @ [Live y]) @ map Live ys @ replicate (length (z # zs)) Raw @ dpost)
             (map CopyCtor ys)"
    using Cons.prems by (intro Cons.IH) simp_all
  then show ?case
    using Cons.prems by (simp add: read_obj_live construct_at_raw emits_simps)
qed

subsection \<open>Copy construction of a range\<close>

lemma uninitialized_copy_n_ok:
  assumes "\<forall>x\<in>set xs. \<not> copy_ctor_throws T x"
  shows "uninitialized_copy_n T (spre @ map Live xs @ spost) (length spre) (length xs)
           (dpre @ replicate (length xs) Raw @ dpost) (length dpre)
         = Returns () (spre @ map Live xs @ spost, dpre @ map Live xs @ dpost) (map CopyCtor xs)"
  by (simp add: uninitialized_copy_n_def copy_construct_loop_ok [OF assms])

lemma uninitialized_copy_n_throws:
  assumes "\<forall>x\<in>set ys. \<not> copy_ctor_throws T x" and "copy_ctor_throws T z"
  shows "uninitialized_copy_n T (spre @ map Live (ys @ z # zs) @ spost) (length spre)
           (length (ys @ z # zs)) (dpre @ replicate (length (ys @ z # zs)) Raw @ dpost)
           (length dpre)
         = Throws T_exception
             (spre @ map Live (ys @ z # zs) @ spost,
              dpre @ replicate (length (ys @ z # zs)) Raw @ dpost)
             (map CopyCtor ys @ map Dtor ys)"
proof -
  have loop: "copy_construct_loop T (spre @ map Live (ys @ z # zs) @ spost) (length spre)
           (length (ys @ z # zs)) (dpre @ replicate (length (ys @ z # zs)) Raw @ dpost)
           (length dpre)
         = Throws T_exception
             (dpre @ map Live ys @ replicate (length (z # zs)) Raw @ dpost) (map CopyCtor ys)"
    by (rule copy_construct_loop_throws [OF assms])
  have undo: "destroy_n (dpre @ map Live ys @ replicate (length (z # zs)) Raw @ dpost)
          (length dpre) (length (map CopyCtor ys))
        = Returns () (dpre @ replicate (length (ys @ z # zs)) Raw @ dpost) (map Dtor ys)"
    using destroy_n_live [of dpre ys "replicate (length (z # zs)) Raw @ dpost"]
    by (simp add: replicate_add replicate_app_Cons_same)
  show ?thesis
    unfolding uninitialized_copy_n_def loop by (simp only: outcome.case undo)
qed

text \<open>Copying never changes the source block.\<close>

lemma uninitialized_copy_n_source:
  "uninitialized_copy_n T src first n dst d = Returns u (s, d') es \<Longrightarrow> s = src"
  "uninitialized_copy_n T src first n dst d = Throws e (s, d') es \<Longrightarrow> s = src"
  by (auto simp: uninitialized_copy_n_def split: outcome.splits prod.splits)

subsection \<open>Move construction of a range\<close>

lemma move_construct_loop_ok:
  assumes "\<forall>x\<in>set xs. \<not> move_ctor_throws T x"
  shows "move_construct_loop T (spre @ map Live xs @ spost) (length spre) (length xs)
           (dpre @ replicate (length xs) Raw @ dpost) (length dpre)
         = Returns (length dpre + length xs)
             (spre @ map (\<lambda>x. Live (moved_from T x)) xs @ spost, dpre @ map Live xs @ dpost)
             (map MoveCtor xs)"
  using assms
proof (induction xs arbitrary: spre dpre)
  case Nil
  then show ?case by simp
next
  case (Cons x xs)
  have "move_construct_loop T ((spre @ [Live (moved_from T x)]) @ map Live xs @ spost)
           (length (spre @ [Live (moved_from T x)]))
           (length xs) ((dpre @ [Live x]) @ replicate (length xs) Raw @ dpost)
           (length (dpre @ [Live x]))
         = Returns (length (dpre @ [Live x]) + length xs)
             ((spre @ [Live (moved_from T x)]) @ map (\<lambda>x. Live (moved_from T x)) xs @ spost,
              (dpre @ [Live x]) @ map Live xs @ dpost) (map MoveCtor xs)"
    using Cons.prems by (intro Cons.IH) simp
  then show ?case
    using Cons.prems by (simp add: read_obj_live construct_at_raw emits_simps)
qed

lemma move_construct_loop_throws:
  assumes "\<forall>x\<in>set ys. \<not> move_ctor_throws T x" and "move_ctor_throws T z"
  shows "move_construct_loop T (spre @ map Live (ys @ z # zs) @ spost) (length spre)
           (length (ys @ z # zs)) (dpre @ replicate (length (ys @ z # zs)) Raw @ dpost)
           (length dpre)
         = Throws T_exception
             (spre @ map (\<lambda>x. Live (moved_from T x)) ys @ map Live (z # zs) @ spost,
              dpre @ map Live ys @ replicate (length (z # zs)) Raw @ dpost)
             (map MoveCtor ys)"
  using assms
proof (induction ys arbitrary: spre dpre)
  case Nil
  then show ?case by (simp add: read_obj_live)
next
  case (Cons y ys)
  have "move_construct_loop T ((spre @ [Live (moved_from T y)]) @ map Live (ys @ z # zs) @ spost)
           (length (spre @ [Live (moved_from T y)])) (length (ys @ z # zs))
           ((dpre @ [Live y]) @ replicate (length (ys @ z # zs)) Raw @ dpost)
           (length (dpre @ [Live y]))
         = Throws T_exception
             ((spre @ [Live (moved_from T y)]) @ map (\<lambda>x. Live (moved_from T x)) ys
                @ map Live (z # zs) @ spost,
              (dpre @ [Live y]) @ map Live ys @ replicate (length (z # zs)) Raw @ dpost)
             (map MoveCtor ys)"
    using Cons.prems by (intro Cons.IH) simp_all
  then show ?case
    using Cons.prems by (simp add: read_obj_live construct_at_raw emits_simps)
qed

lemma uninitialized_move_n_ok:
  assumes "\<forall>x\<in>set xs. \<not> move_ctor_throws T x"
  shows "uninitialized_move_n T (spre @ map Live xs @ spost) (length spre) (length xs)
           (dpre @ replicate (length xs) Raw @ dpost) (length dpre)
         = Returns ()
             (spre @ map (\<lambda>x. Live (moved_from T x)) xs @ spost, dpre @ map Live xs @ dpost)
             (map MoveCtor xs)"
  by (simp add: uninitialized_move_n_def move_construct_loop_ok [OF assms])

lemma uninitialized_move_n_throws:
  assumes "\<forall>x\<in>set ys. \<not> move_ctor_throws T x" and "move_ctor_throws T z"
  shows "uninitialized_move_n T (spre @ map Live (ys @ z # zs) @ spost) (length spre)
           (length (ys @ z # zs)) (dpre @ replicate (length (ys @ z # zs)) Raw @ dpost)
           (length dpre)
         = Throws T_exception
             (spre @ map (\<lambda>x. Live (moved_from T x)) ys @ map Live (z # zs) @ spost,
              dpre @ replicate (length (ys @ z # zs)) Raw @ dpost)
             (map MoveCtor ys @ map Dtor ys)"
proof -
  have loop: "move_construct_loop T (spre @ map Live (ys @ z # zs) @ spost) (length spre)
           (length (ys @ z # zs)) (dpre @ replicate (length (ys @ z # zs)) Raw @ dpost)
           (length dpre)
         = Throws T_exception
             (spre @ map (\<lambda>x. Live (moved_from T x)) ys @ map Live (z # zs) @ spost,
              dpre @ map Live ys @ replicate (length (z # zs)) Raw @ dpost)
             (map MoveCtor ys)"
    by (rule move_construct_loop_throws [OF assms])
  have undo: "destroy_n (dpre @ map Live ys @ replicate (length (z # zs)) Raw @ dpost)
          (length dpre) (length (map MoveCtor ys))
        = Returns () (dpre @ replicate (length (ys @ z # zs)) Raw @ dpost) (map Dtor ys)"
    using destroy_n_live [of dpre ys "replicate (length (z # zs)) Raw @ dpost"]
    by (simp add: replicate_add replicate_app_Cons_same)
  show ?thesis
    unfolding uninitialized_move_n_def loop by (simp only: outcome.case prod.case undo)
qed

subsection \<open>Relocation under the transfer policy\<close>

lemma MoveOrCopyToMemory_ok:
  assumes "\<forall>x\<in>set xs. \<not> relocation_throws T x"
  shows "MoveOrCopyToMemory T (spre @ map Live xs @ spost) (length spre) (length xs)
           (dpre @ replicate (length xs) Raw @ dpost) (length dpre)
         = Returns ()
             (spre @ map (\<lambda>x. Live (left_behind T x)) xs @ spost, dpre @ map Live xs @ dpost)
             (map (relocation_event T) xs)"
proof (cases "is_nothrow_move_constructible T \<or> \<not> is_copy_constructible T")
  case True
  with assms have "\<forall>x\<in>set xs. \<not> move_ctor_throws T x"
    by (simp add: relocation_throws_def)
  from uninitialized_move_n_ok [OF this] True show ?thesis
    by (simp add: MoveOrCopyToMemory_def left_behind_def relocation_event_def)
next
  case False
  with assms have "\<forall>x\<in>set xs. \<not> copy_ctor_throws T x"
    by (simp add: relocation_throws_def)
  from uninitialized_copy_n_ok [OF this] False show ?thesis
    by (simp add: MoveOrCopyToMemory_def left_behind_def relocation_event_def)
qed

lemma MoveOrCopyToMemory_whole:
  assumes "\<forall>x\<in>set xs. \<not> relocation_throws T x" and "length xs \<le> n"
  shows "MoveOrCopyToMemory T (map Live xs @ post) 0 (length xs) (replicate n Raw) 0
         = Returns ()
             (map (\<lambda>x. Live (left_behind T x)) xs @ post,
              map Live xs @ replicate (n - length xs) Raw)
             (map (relocation_event T) xs)"
proof -
  have "replicate n (Raw :: 'a slot)
          = replicate (length xs) Raw @ replicate (n - length xs) Raw"
    using assms(2) by (simp add: replicate_add [symmetric])
  then show ?thesis
    using MoveOrCopyToMemory_ok [OF assms(1), of "[]" post "[]" "replicate (n - length xs) Raw"]
    by simp
qed

subsection \<open>Vectors that satisfy the invariant\<close>

lemma mk_fields [simp]:
  "m_size (mk xs cap) = length xs"
  "length xs \<le> cap \<Longrightarrow> length (m_data (mk xs cap)) = cap"
  by (simp_all add: mk_def)

lemma Capacity_mk [simp]: "length xs \<le> cap \<Longrightarrow> Capacity (mk xs cap) = cap"
  by (simp add: Capacity_def)

lemma elems_mk [simp]: "elems (mk xs cap) = xs"
  by (simp add: elems_def mk_def comp_def)

lemma wf_mk: "length xs \<le> cap \<Longrightarrow> cap \<le> SIZE_MAX \<Longrightarrow> wf (mk xs cap)"
  by (simp add: wf_def mk_def list_all_iff)

lemma wf_is_mk:
  assumes "wf v"
  shows "v = mk (elems v) (Capacity v)"
proof -
  let ?d = "m_data v" and ?n = "m_size v"
  from assms have le: "?n \<le> length ?d"
    and live: "\<forall>s\<in>set (take ?n ?d). is_live s"
    and raw: "\<forall>s\<in>set (drop ?n ?d). s = Raw"
    by (simp_all add: wf_def list_all_iff)
  have "Live (the_live s) = s" if "is_live s" for s :: "'a slot"
    using that by (cases s) simp_all
  with live have "map Live (map the_live (take ?n ?d)) = take ?n ?d"
    by (simp add: map_idI)
  moreover have "drop ?n ?d = replicate (length ?d - ?n) Raw"
    using raw by (intro replicate_eqI) simp_all
  ultimately have "?d = map Live (elems v) @ replicate (Capacity v - length (elems v)) Raw"
    using le append_take_drop_id [of ?n ?d] by (simp add: elems_def Capacity_def min_absorb2)
  moreover have "?n = length (elems v)"
    using le by (simp add: elems_def)
  ultimately show ?thesis
    by (simp add: mk_def)
qed

lemma wf_bounds:
  assumes "wf v"
  shows "length (elems v) \<le> Capacity v" and "Capacity v \<le> SIZE_MAX"
    and "length (elems v) = m_size v"
  using assms by (simp_all add: wf_def elems_def Capacity_def)

lemma Vector_at_mk:
  "i < length xs \<Longrightarrow> Vector_at (mk xs cap) i = Inr (xs ! i)"
  by (simp add: Vector_at_def mk_def RawMemory_at_def read_obj_def nth_append)

subsection \<open>Reserve\<close>

lemma allocated_slots_fits: "fits T n \<Longrightarrow> allocated_slots T n = n"
  by (simp add: fits_def allocated_slots_def)

lemma RawMemory_new_ok:
  "fits T n \<Longrightarrow> \<not> alloc_throws T n \<Longrightarrow> RawMemory_new T n = Some (replicate n Raw)"
  by (simp add: RawMemory_new_def allocated_slots_fits)

lemma RawMemory_new_fails:
  "alloc_throws T n \<Longrightarrow> n \<noteq> 0 \<Longrightarrow> RawMemory_new T n = None"
  by (simp add: RawMemory_new_def)

lemma destroy_left_behind:
  "destroy_n (map (\<lambda>x. Live (left_behind T x)) xs @ post) 0 (length xs)
     = Returns () (replicate (length xs) Raw @ post) (map (\<lambda>x. Dtor (left_behind T x)) xs)"
  using destroy_n_live [of "[]" "map (left_behind T) xs" post] by (simp add: comp_def)

lemma replicate_split: "k \<le> n \<Longrightarrow> replicate n a = replicate k a @ replicate (n - k) a"
  by (simp add: replicate_add [symmetric])

lemma Reserve_unfold:
  "Reserve T v n =
     (if n \<le> length (m_data v) then Returns () v []
      else
        (case RawMemory_new T n of
           None \<Rightarrow> Throws bad_alloc v []
         | Some new_data \<Rightarrow>
             seq (MoveOrCopyToMemory T (m_data v) 0 (m_size v) new_data 0)
                 (\<lambda>(old, new_data). v\<lparr>m_data := old\<rparr>)
               (\<lambda>(old, new_data).
             seq (destroy_n old 0 (m_size v)) (\<lambda>old'. v\<lparr>m_data := old'\<rparr>)
               (\<lambda>old'. Returns () (v\<lparr>m_data := new_data\<rparr>) []))))"
  unfolding Reserve_def MoveOrCopyToMemory_def by (rule refl)

lemma Reserve_ok:
  assumes "length xs \<le> cap" and "cap < n" and "\<not> alloc_throws T n"
    and "\<forall>x\<in>set xs. \<not> relocation_throws T x" and "fits T n"
  shows "Reserve T (mk xs cap) n
         = Returns () (mk xs n)
             (map (relocation_event T) xs @ map (\<lambda>x. Dtor (left_behind T x)) xs)"
proof -
  let ?post = "replicate (cap - length xs) (Raw :: 'a slot)"
  have reloc: "MoveOrCopyToMemory T (map Live xs @ ?post) 0 (length xs) (replicate n Raw) 0
       = Returns ()
             (map (\<lambda>x. Live (left_behind T x)) xs @ ?post,
              map Live xs @ replicate (n - length xs) Raw)
             (map (relocation_event T) xs)"
    using assms by (intro MoveOrCopyToMemory_whole) simp_all
  show ?thesis
    using assms(1,2)
    by (simp add: Reserve_unfold mk_def RawMemory_new_ok [OF assms(5,3)] reloc seq_simps
          destroy_left_behind emits_simps)
qed


lemma Reserve_bad_alloc:
  "Capacity v < n \<Longrightarrow> alloc_throws T n \<Longrightarrow> Reserve T v n = Throws bad_alloc v []"
  by (simp add: Reserve_def Capacity_def RawMemory_new_def)

lemma Reserve_copy_throws:
  assumes "length (ys @ z # zs) \<le> cap" and "cap < n" and "\<not> alloc_throws T n"
    and "\<not> (is_nothrow_move_constructible T \<or> \<not> is_copy_constructible T)"
    and "\<forall>x\<in>set ys. \<not> copy_ctor_throws T x" and "copy_ctor_throws T z"
    and "fits T n"
  shows "Reserve T (mk (ys @ z # zs) cap) n
         = Throws T_exception (mk (ys @ z # zs) cap) (map CopyCtor ys @ map Dtor ys)"
proof -
  let ?xs = "ys @ z # zs"
  let ?post = "replicate (cap - length ?xs) (Raw :: 'a slot)"
  have split: "replicate n (Raw :: 'a slot)
          = replicate (length ?xs) Raw @ replicate (n - length ?xs) Raw"
    using assms(1,2) by (intro replicate_split) simp
  have "uninitialized_copy_n T ([] @ map Live ?xs @ ?post) (length ([] :: 'a slot list))
          (length ?xs) ([] @ replicate (length ?xs) Raw @ replicate (n - length ?xs) Raw)
          (length ([] :: 'a slot list))
       = Throws T_exception ([] @ map Live ?xs @ ?post,
            [] @ replicate (length ?xs) Raw @ replicate (n - length ?xs) Raw)
            (map CopyCtor ys @ map Dtor ys)"
    by (rule uninitialized_copy_n_throws [OF assms(5,6)])
  then have reloc: "uninitialized_copy_n T (map Live ?xs @ ?post) 0 (length ?xs)
          (replicate n Raw) 0
       = Throws T_exception (map Live ?xs @ ?post, replicate n Raw)
            (map CopyCtor ys @ map Dtor ys)"
    unfolding split [symmetric] by (simp only: append_Nil list.size)
  have "Reserve T (mk ?xs cap) n
      = seq (uninitialized_copy_n T (map Live ?xs @ ?post) 0 (length ?xs) (replicate n Raw) 0)
          (\<lambda>(old, new_data). (mk ?xs cap)\<lparr>m_data := old\<rparr>)
          (\<lambda>(old, new_data).
             seq (destroy_n old 0 (length ?xs)) (\<lambda>old'. (mk ?xs cap)\<lparr>m_data := old'\<rparr>)
               (\<lambda>old'. Returns () ((mk ?xs cap)\<lparr>m_data := new_data\<rparr>) []))"
    using assms(1,2,4) by (simp add: Reserve_def mk_def RawMemory_new_ok [OF assms(7,3)])
  also have "\<dots> = Throws T_exception (mk ?xs cap) (map CopyCtor ys @ map Dtor ys)"
    unfolding reloc by (simp add: seq_simps mk_def)
  finally show ?thesis .
qed

text \<open>Under the copying policy an exception leaves the vector as it was, whatever the
  vector: the old block is only read until the new one is complete.\<close>

lemma copy_policy_source:
  assumes "\<not> (is_nothrow_move_constructible T \<or> \<not> is_copy_constructible T)"
  shows "MoveOrCopyToMemory T src first n dst d = Returns u (s, d') es \<Longrightarrow> s = src"
    and "MoveOrCopyToMemory T src first n dst d = Throws e (s, d') es \<Longrightarrow> s = src"
  using assms by (auto simp: MoveOrCopyToMemory_def dest: uninitialized_copy_n_source)

lemma Reserve_strong:
  assumes "\<not> (is_nothrow_move_constructible T \<or> \<not> is_copy_constructible T)"
    and "Reserve T v n = Throws e v' es"
  shows "v' = v"
proof (cases "n \<le> length (m_data v)")
  case True
  with assms(2) show ?thesis by (simp add: Reserve_def)
next
  case False
  show ?thesis
  proof (cases "RawMemory_new T n")
    case None
    with False assms(2) show ?thesis by (simp add: Reserve_def)
  next
    case (Some new_data)
    show ?thesis
    proof (cases "uninitialized_copy_n T (m_data v) 0 (m_size v) new_data 0")
      case (Returns u s es1)
      obtain old nd where s: "s = (old, nd)" by (cases s)
      show ?thesis
        using assms False Some Returns s destroy_n_no_throw [of old 0 "m_size v"]
        by (cases "destroy_n old 0 (m_size v)")
           (auto simp: Reserve_def seq_simps emits_simps)
    next
      case (Throws e1 s es1)
      obtain old nd where s: "s = (old, nd)" by (cases s)
      with Throws have "old = m_data v"
        by (auto dest: uninitialized_copy_n_source)
      with assms False Some Throws s show ?thesis
        by (simp add: Reserve_def seq_simps)
    next
      case (Fault f)
      with assms False Some show ?thesis
        by (simp add: Reserve_def seq_simps)
    qed
  qed
qed

section \<open>Reserve and the capacity\<close>




section \<open>Growth by reallocation\<close>

subsection \<open>How an exception leaves a sequence of steps\<close>

lemma seq_ThrowsE:
  assumes "seq r u k = Throws e w es"
  obtains (first) s where "r = Throws e s es" and "w = u s"
  | (rest) y s es1 es2 where "r = Returns y s es1" and "k s = Throws e w es2"
      and "es = es1 @ es2"
proof (cases r)
  case (Returns y s es1)
  with assms have "emits es1 (k s) = Throws e w es"
    by (simp add: seq_simps)
  then obtain es2 where "k s = Throws e w es2" and "es = es1 @ es2"
    by (cases "k s") (auto simp: emits_simps)
  with Returns show ?thesis
    by (rule rest)
next
  case (Throws e' s es')
  with assms show ?thesis
    by (intro first [of s]) (simp_all add: seq_simps)
next
  case (Fault f)
  with assms show ?thesis
    by (simp add: seq_simps)
qed

subsection \<open>The constructor call of the new element\<close>

lemma length_after_elems [simp]: "length (after_elems T c xs) = length xs"
  by (simp add: after_elems_def split: init.splits arg.splits)

lemma after_elems_same: "\<not> moves_from_element c \<Longrightarrow> after_elems T c xs = xs"
  by (simp add: after_elems_def moves_from_element_def split: init.splits arg.splits)

lemma after_init_same: "\<not> moves_from_element c \<Longrightarrow> after_init T c m x = m"
  by (simp add: after_init_def moves_from_element_def split: init.splits arg.splits)

lemma husk_left_same: "\<not> moves_from_element c \<Longrightarrow> husk_left T c v = v"
  by (simp add: husk_left_def after_init_same split: sum.splits)

lemma init_on_block:
  assumes "init_ok xs c"
  shows "init_source (map Live xs @ post) c = Inr (init_value xs c)"
    and "after_init T c (map Live xs @ post) (init_value xs c)
         = map Live (after_elems T c xs) @ post"
  using assms
  by (auto simp: init_source_def arg_value_def read_obj_def nth_append init_ok_def arg_ok_def
        init_value_def arg_of_def after_init_def after_elems_def list_update_append map_update
      split: init.splits arg.splits)

lemma husk_left_mk:
  assumes "init_ok xs c" and "length xs \<le> cap"
  shows "husk_left T c (mk xs cap) = mk (after_elems T c xs) cap"
  using assms by (simp add: husk_left_def mk_def init_on_block)

lemma placement_new_Throws:
  "placement_new T c src dst a = Throws e s es \<Longrightarrow> s = (src, dst) \<and> es = [] \<and> e = T_exception"
  by (auto simp: placement_new_def split: sum.splits if_splits)

lemma placement_new_Returns:
  "placement_new T c src dst a = Returns u (old, nd) es \<Longrightarrow>
     \<exists>x. init_source src c = Inr x \<and> old = after_init T c src x"
  by (auto simp: placement_new_def split: sum.splits if_splits)

lemma placement_new_here_Throws:
  "placement_new_here T c m a = Throws e m' es \<Longrightarrow> m' = m \<and> es = [] \<and> e = T_exception"
  by (auto simp: placement_new_here_def split: sum.splits if_splits)

lemma placement_new_raw:
  assumes "init_ok xs c" and "\<not> init_throws T c (init_value xs c)"
  shows "placement_new T c (map Live xs @ spost) (pre @ Raw # post)
           (RawMemory_plus (pre @ Raw # post) (length pre))
         = Returns () (map Live (after_elems T c xs) @ spost, pre @ Live (init_value xs c) # post)
             [init_event c (init_value xs c)]"
  using assms(2)
  by (simp add: placement_new_def RawMemory_plus_def construct_at_raw init_on_block [OF assms(1)])

lemma placement_new_here_raw:
  assumes "init_ok xs c" and "\<not> init_throws T c (init_value xs c)"
  shows "placement_new_here T c (map Live xs @ Raw # post)
           (RawMemory_plus (map Live xs @ Raw # post) (length xs))
         = Returns () (map Live (after_elems T c xs) @ Live (init_value xs c) # post)
             [init_event c (init_value xs c)]"
proof -
  have "construct_at (map Live xs @ Raw # post) (length (map Live xs)) (init_value xs c)
      = Inr (map Live xs @ Live (init_value xs c) # post)"
    by (rule construct_at_raw)
  then show ?thesis
    using assms(2)
    by (simp add: placement_new_here_def RawMemory_plus_def init_on_block [OF assms(1)])
qed

lemma placement_new_throws:
  "init_source src c = Inr x \<Longrightarrow> init_throws T c x \<Longrightarrow> i \<le> length dst \<Longrightarrow>
     placement_new T c src dst (RawMemory_plus dst i) = Throws T_exception (src, dst) []"
  by (simp add: placement_new_def RawMemory_plus_def)

text \<open>The common tail of the reallocating paths under the copying policy: relocation,
  destruction of the old elements, and a last step that returns.\<close>

lemma realloc_tail_strong:
  assumes copy: "\<not> (is_nothrow_move_constructible T \<or> \<not> is_copy_constructible T)"
    and run: "seq (MoveOrCopyToMemory T src first n dst d)
                (\<lambda>(old, new_data). v\<lparr>m_data := old\<rparr>)
                (\<lambda>(old, new_data).
                   seq (destroy_n old 0 k) (\<lambda>old'. v\<lparr>m_data := old'\<rparr>)
                     (\<lambda>old'. Returns y (fin new_data) [])) = Throws e w es"
  shows "w = v\<lparr>m_data := src\<rparr>"
  using run
proof (cases rule: seq_ThrowsE)
  case (first s)
  obtain old nd where "s = (old, nd)" by (cases s)
  with first copy_policy_source(2) [OF copy] have "old = src"
    by blast
  with first \<open>s = (old, nd)\<close> show ?thesis by simp
next
  case (rest u s es1 es2)
  obtain old nd where s: "s = (old, nd)" by (cases s)
  from rest(2) s have "seq (destroy_n old 0 k) (\<lambda>old'. v\<lparr>m_data := old'\<rparr>)
      (\<lambda>old'. Returns y (fin nd) []) = Throws e w es2"
    by simp
  then show ?thesis
    by (cases rule: seq_ThrowsE) (simp_all add: destroy_n_no_throw)
qed

subsection \<open>PushBack and EmplaceBack\<close>

lemma PushBack_body_unfold:
  "PushBack_body T c v =
     (if Capacity v = m_size v then
        (case RawMemory_new T (if m_size v = 0 then 1 else m_size v * 2) of
           None \<Rightarrow> Throws bad_alloc v []
         | Some new_data \<Rightarrow>
             seq (placement_new T c (m_data v) new_data (RawMemory_plus new_data (m_size v)))
                 (\<lambda>(old, new_data). v\<lparr>m_data := old\<rparr>)
               (\<lambda>(old, new_data).
             seq (MoveOrCopyToMemory T old 0 (m_size v) new_data 0)
                 (\<lambda>(old, new_data). v\<lparr>m_data := old\<rparr>)
               (\<lambda>(old, new_data).
             seq (destroy_n old 0 (m_size v)) (\<lambda>old'. v\<lparr>m_data := old'\<rparr>)
               (\<lambda>old'. Returns () \<lparr>m_data = new_data, m_size = m_size v + 1\<rparr> []))))
      else
        seq (placement_new_here T c (m_data v) (RawMemory_plus (m_data v) (m_size v)))
            (\<lambda>m. v\<lparr>m_data := m\<rparr>)
          (\<lambda>m. Returns () \<lparr>m_data = m, m_size = m_size v + 1\<rparr> []))"
  unfolding PushBack_body_def MoveOrCopyToMemory_def by (rule refl)

text \<open>Under the copying policy an exception leaves the vector as it was, but for the
  element that the constructor call of the new element has moved from.\<close>

lemma PushBack_body_strong:
  assumes "\<not> (is_nothrow_move_constructible T \<or> \<not> is_copy_constructible T)"
    and "PushBack_body T c v = Throws e w es"
  shows "w = v \<or> w = husk_left T c v"
proof (cases "Capacity v = m_size v")
  case True
  show ?thesis
  proof (cases "RawMemory_new T (if m_size v = 0 then 1 else m_size v * 2)")
    case None
    with True assms(2) show ?thesis
      by (simp add: PushBack_body_unfold)
  next
    case (Some new_data)
    with True assms(2) have "seq (placement_new T c (m_data v) new_data
          (RawMemory_plus new_data (m_size v)))
        (\<lambda>(old, new_data). v\<lparr>m_data := old\<rparr>)
        (\<lambda>(old, new_data).
           seq (MoveOrCopyToMemory T old 0 (m_size v) new_data 0)
               (\<lambda>(old, new_data). v\<lparr>m_data := old\<rparr>)
             (\<lambda>(old, new_data).
           seq (destroy_n old 0 (m_size v)) (\<lambda>old'. v\<lparr>m_data := old'\<rparr>)
             (\<lambda>old'. Returns () \<lparr>m_data = new_data, m_size = m_size v + 1\<rparr> [])))
        = Throws e w es"
      by (simp add: PushBack_body_unfold)
    then show ?thesis
    proof (cases rule: seq_ThrowsE)
      case (first s)
      from placement_new_Throws [OF first(1)] first(2) show ?thesis by simp
    next
      case (rest u s es1 es2)
      obtain old nd where s: "s = (old, nd)" by (cases s)
      from placement_new_Returns [OF rest(1) [unfolded s]] obtain x
        where x: "init_source (m_data v) c = Inr x" "old = after_init T c (m_data v) x"
        by blast
      from rest(2) have "w = v\<lparr>m_data := old\<rparr>"
        unfolding s prod.case by (rule realloc_tail_strong [OF assms(1)])
      with x show ?thesis
        by (simp add: husk_left_def)
    qed
  qed
next
  case False
  with assms(2) have "seq (placement_new_here T c (m_data v) (RawMemory_plus (m_data v) (m_size v)))
      (\<lambda>m. v\<lparr>m_data := m\<rparr>) (\<lambda>m. Returns () \<lparr>m_data = m, m_size = m_size v + 1\<rparr> [])
      = Throws e w es"
    by (simp add: PushBack_body_unfold)
  then show ?thesis
  proof (cases rule: seq_ThrowsE)
    case (first s)
    from placement_new_here_Throws [OF first(1)] first(2) show ?thesis by simp
  next
    case (rest u s es1 es2)
    then show ?thesis by simp
  qed
qed

lemma PushBack_body_grow_ok:
  assumes cap: "newcap = (if length xs = 0 then 1 else length xs * 2)"
    and "fits T newcap" and "\<not> alloc_throws T newcap"
    and "init_ok xs c" and "\<not> init_throws T c (init_value xs c)"
    and "\<forall>y\<in>set (after_elems T c xs). \<not> relocation_throws T y"
  shows "PushBack_body T c (mk xs (length xs))
         = Returns () (mk (after_elems T c xs @ [init_value xs c]) newcap)
             (init_event c (init_value xs c) # map (relocation_event T) (after_elems T c xs)
                @ map (\<lambda>y. Dtor (left_behind T y)) (after_elems T c xs))"
proof -
  define x where "x = init_value xs c"
  define xs' where "xs' = after_elems T c xs"
  have len: "length xs' = length xs"
    by (simp add: xs'_def)
  let ?rest = "replicate (newcap - Suc (length xs)) (Raw :: 'a slot)"
  let ?v = "mk xs (length xs)"
  have lt: "length xs < newcap"
    using cap by simp
  have data: "m_data ?v = map Live xs" and size: "m_size ?v = length xs"
    and full: "Capacity ?v = m_size ?v"
    by (simp_all add: mk_def Capacity_def)
  have "replicate newcap (Raw :: 'a slot)
          = replicate (length xs) Raw @ replicate (newcap - length xs) Raw"
    using lt by (intro replicate_split) simp
  moreover have "replicate (newcap - length xs) (Raw :: 'a slot) = Raw # ?rest"
    using lt by (cases "newcap - length xs") simp_all
  ultimately have new: "replicate newcap (Raw :: 'a slot)
          = replicate (length xs) Raw @ Raw # ?rest"
    by simp
  have nc: "(if length xs = 0 then 1 else length xs * 2) = newcap"
    using cap by simp
  have alloc: "RawMemory_new T newcap = Some (replicate (length xs) Raw @ Raw # ?rest)"
    using RawMemory_new_ok [OF assms(2,3)] new by (simp only:)
  have place: "placement_new T c (map Live xs) (replicate (length xs) Raw @ Raw # ?rest)
          (RawMemory_plus (replicate (length xs) Raw @ Raw # ?rest) (length xs))
        = Returns () (map Live xs', replicate (length xs) Raw @ Live x # ?rest) [init_event c x]"
    using placement_new_raw [OF assms(4,5), of "[]" "replicate (length xs) Raw" ?rest]
    by (simp add: x_def xs'_def)
  have reloc: "MoveOrCopyToMemory T (map Live xs') 0 (length xs)
          (replicate (length xs) Raw @ Live x # ?rest) 0
        = Returns ()
             (map (\<lambda>y. Live (left_behind T y)) xs', map Live xs' @ Live x # ?rest)
             (map (relocation_event T) xs')"
    using MoveOrCopyToMemory_ok [OF assms(6), of "[]" "[]" "[]" "Live x # ?rest"]
    by (simp add: xs'_def)
  have destroy: "destroy_n (map (\<lambda>y. Live (left_behind T y)) xs') 0 (length xs)
        = Returns () (replicate (length xs) Raw) (map (\<lambda>y. Dtor (left_behind T y)) xs')"
    using destroy_left_behind [of T xs' "[]"] by (simp add: len)
  have fin: "\<lparr>m_data = map Live xs' @ Live x # ?rest, m_size = length xs + 1\<rparr>
        = mk (xs' @ [x]) newcap"
    by (simp add: mk_def len)
  have "PushBack_body T c ?v
      = Returns () (mk (xs' @ [x]) newcap)
          (init_event c x # map (relocation_event T) xs' @ map (\<lambda>y. Dtor (left_behind T y)) xs')"
    unfolding PushBack_body_unfold
    by (simp only: full simp_thms if_True nc size data alloc option.case place seq_simps reloc
          prod.case destroy emits_simps fin append_Nil append_Cons append_Nil2)
  then show ?thesis
    by (simp only: x_def xs'_def)
qed

lemma PushBack_body_place_ok:
  assumes "length xs < cap" and "init_ok xs c" and "\<not> init_throws T c (init_value xs c)"
  shows "PushBack_body T c (mk xs cap)
         = Returns () (mk (after_elems T c xs @ [init_value xs c]) cap)
             [init_event c (init_value xs c)]"
proof -
  let ?rest = "replicate (cap - Suc (length xs)) (Raw :: 'a slot)"
  have "replicate (cap - length xs) (Raw :: 'a slot) = Raw # ?rest"
    using assms(1) by (cases "cap - length xs") simp_all
  then have data: "m_data (mk xs cap) = map Live xs @ Raw # ?rest"
    by (simp add: mk_def)
  have place: "placement_new_here T c (map Live xs @ Raw # ?rest)
          (RawMemory_plus (map Live xs @ Raw # ?rest) (length xs))
        = Returns () (map Live (after_elems T c xs) @ Live (init_value xs c) # ?rest)
            [init_event c (init_value xs c)]"
    using assms(2,3) by (rule placement_new_here_raw)
  have "Capacity (mk xs cap) \<noteq> m_size (mk xs cap)"
    using assms(1) by simp
  then show ?thesis
    by (simp add: PushBack_body_unfold data place seq_simps emits_simps) (simp add: mk_def)
qed

lemma PushBack_body_bad_alloc:
  assumes "Capacity v = m_size v" and "alloc_throws T (if m_size v = 0 then 1 else m_size v * 2)"
  shows "PushBack_body T c v = Throws bad_alloc v []"
  using assms by (simp add: PushBack_body_unfold RawMemory_new_def)

lemma MoveOrCopyToMemory_copy_throws:
  assumes "\<not> (is_nothrow_move_constructible T \<or> \<not> is_copy_constructible T)"
    and "\<forall>x\<in>set ys. \<not> copy_ctor_throws T x" and "copy_ctor_throws T z"
  shows "MoveOrCopyToMemory T (spre @ map Live (ys @ z # zs) @ spost) (length spre)
           (length (ys @ z # zs)) (dpre @ replicate (length (ys @ z # zs)) Raw @ dpost)
           (length dpre)
         = Throws T_exception
             (spre @ map Live (ys @ z # zs) @ spost,
              dpre @ replicate (length (ys @ z # zs)) Raw @ dpost)
             (map CopyCtor ys @ map Dtor ys)"
  using assms(1) uninitialized_copy_n_throws [OF assms(2,3)]
  by (simp add: MoveOrCopyToMemory_def)

lemma first_throwing:
  assumes "\<exists>x\<in>set xs. P x"
  obtains ys z zs where "xs = ys @ z # zs" and "P z" and "\<forall>y\<in>set ys. \<not> P y"
  using split_list_first_prop [OF assms] by blast

lemma PushBack_body_ctor_throws:
  fixes T :: "'a T_model"
  assumes "Capacity v = m_size v"
    and "fits T (if m_size v = 0 then 1 else m_size v * 2)"
    and "\<not> alloc_throws T (if m_size v = 0 then 1 else m_size v * 2)"
    and "init_source (m_data v) c = Inr x" and "init_throws T c x"
  shows "PushBack_body T c v = Throws T_exception v []"
proof -
  define n where "n = (if m_size v = 0 then 1 else m_size v * 2)"
  let ?new = "replicate n (Raw :: 'a slot)"
  have "m_size v \<le> length ?new"
    by (simp add: n_def)
  with assms(4,5) have "placement_new T c (m_data v) ?new (RawMemory_plus ?new (m_size v))
      = Throws T_exception (m_data v, ?new) []"
    by (rule placement_new_throws)
  moreover have "RawMemory_new T n = Some ?new"
    using assms(2,3) unfolding n_def [symmetric] by (rule RawMemory_new_ok)
  ultimately show ?thesis
    using assms(1) unfolding PushBack_body_unfold n_def [symmetric]
    by (simp add: seq_simps)
qed

lemma PushBack_body_copy_throws_at:
  assumes copy: "\<not> (is_nothrow_move_constructible T \<or> \<not> is_copy_constructible T)"
    and cap: "newcap = (if length xs = 0 then 1 else length xs * 2)"
    and "fits T newcap" and "\<not> alloc_throws T newcap"
    and "init_ok xs c" and "\<not> init_throws T c (init_value xs c)"
    and xs': "after_elems T c xs = ys @ z # zs"
    and ys: "\<forall>y\<in>set ys. \<not> copy_ctor_throws T y" and z: "copy_ctor_throws T z"
  shows "PushBack_body T c (mk xs (length xs))
         = Throws T_exception (mk (after_elems T c xs) (length xs))
             (init_event c (init_value xs c) # map CopyCtor ys @ map Dtor ys)"
proof -
  define x where "x = init_value xs c"
  define xs' where "xs' = after_elems T c xs"
  have len: "length xs' = length xs"
    by (simp add: xs'_def)
  have split: "xs' = ys @ z # zs"
    using xs' by (simp add: xs'_def)
  let ?rest = "replicate (newcap - Suc (length xs)) (Raw :: 'a slot)"
  let ?v = "mk xs (length xs)"
  have lt: "length xs < newcap"
    using cap by simp
  have "replicate newcap (Raw :: 'a slot)
          = replicate (length xs) Raw @ replicate (newcap - length xs) Raw"
    using lt by (intro replicate_split) simp
  moreover have "replicate (newcap - length xs) (Raw :: 'a slot) = Raw # ?rest"
    using lt by (cases "newcap - length xs") simp_all
  ultimately have new: "replicate newcap (Raw :: 'a slot)
          = replicate (length xs) Raw @ Raw # ?rest"
    by simp
  have nc: "(if length xs = 0 then 1 else length xs * 2) = newcap"
    using cap by simp
  have alloc: "RawMemory_new T newcap = Some (replicate (length xs) Raw @ Raw # ?rest)"
    using RawMemory_new_ok [OF assms(3,4)] new by (simp only:)
  have place: "placement_new T c (map Live xs) (replicate (length xs) Raw @ Raw # ?rest)
          (RawMemory_plus (replicate (length xs) Raw @ Raw # ?rest) (length xs))
        = Returns () (map Live xs', replicate (length xs) Raw @ Live x # ?rest) [init_event c x]"
    using placement_new_raw [OF assms(5,6), of "[]" "replicate (length xs) Raw" ?rest]
    by (simp add: x_def xs'_def)
  have "MoveOrCopyToMemory T (map Live xs') 0 (length xs')
          (replicate (length xs') Raw @ Live x # ?rest) 0
        = Throws T_exception (map Live xs', replicate (length xs') Raw @ Live x # ?rest)
            (map CopyCtor ys @ map Dtor ys)"
    using MoveOrCopyToMemory_copy_throws [OF copy ys z, of "[]" zs "[]" "[]" "Live x # ?rest"]
    unfolding split [symmetric] by simp
  then have reloc: "MoveOrCopyToMemory T (map Live xs') 0 (length xs)
          (replicate (length xs) Raw @ Live x # ?rest) 0
        = Throws T_exception (map Live xs', replicate (length xs) Raw @ Live x # ?rest)
            (map CopyCtor ys @ map Dtor ys)"
    unfolding len .
  have data: "m_data ?v = map Live xs" and size: "m_size ?v = length xs"
    and full: "Capacity ?v = m_size ?v"
    by (simp_all add: mk_def Capacity_def)
  have same: "?v\<lparr>m_data := map Live xs'\<rparr> = mk xs' (length xs)"
    by (simp add: mk_def len)
  have "PushBack_body T c ?v
      = Throws T_exception (mk xs' (length xs)) (init_event c x # map CopyCtor ys @ map Dtor ys)"
    unfolding PushBack_body_unfold
    by (simp only: full simp_thms if_True nc size data alloc option.case place seq_simps reloc
          prod.case emits_simps same append_Nil append_Cons)
  then show ?thesis
    by (simp only: x_def xs'_def)
qed

lemma PushBack_body_copy_throws:
  assumes "\<not> (is_nothrow_move_constructible T \<or> \<not> is_copy_constructible T)"
    and "newcap = (if length xs = 0 then 1 else length xs * 2)"
    and "fits T newcap" and "\<not> alloc_throws T newcap"
    and "init_ok xs c" and "\<not> init_throws T c (init_value xs c)"
    and "\<exists>y\<in>set (after_elems T c xs). copy_ctor_throws T y"
  shows "\<exists>es. PushBack_body T c (mk xs (length xs))
           = Throws T_exception (mk (after_elems T c xs) (length xs)) es"
proof -
  from assms(7) obtain ys z zs where "after_elems T c xs = ys @ z # zs"
    and "copy_ctor_throws T z" and "\<forall>y\<in>set ys. \<not> copy_ctor_throws T y"
    by (rule first_throwing)
  from PushBack_body_copy_throws_at [OF assms(1-6) this(1,3,2)] show ?thesis ..
qed

subsection \<open>The reallocating branch of Emplace and Insert\<close>

lemma insert_realloc_ok:
  fixes T :: "'a T_model"
  assumes cap: "newcap = (if length xs = 0 then 1 else length xs * 2)"
    and "fits T newcap" and "\<not> alloc_throws T newcap"
    and "init_ok xs c" and "\<not> init_throws T c (init_value xs c)"
    and split: "after_elems T c xs = as @ bs"
    and "\<forall>y\<in>set (as @ bs). \<not> relocation_throws T y"
  shows "insert_realloc T c (mk xs (length xs)) (length as)
         = Returns ()
             \<lparr>m_data = map Live (as @ init_value xs c # bs)
                         @ replicate (newcap - Suc (length xs)) Raw,
                m_size = length xs\<rparr>
             (init_event c (init_value xs c) # map (relocation_event T) (as @ bs)
                @ map (\<lambda>y. Dtor (left_behind T y)) (as @ bs))"
proof -
  define x where "x = init_value xs c"
  have n: "length xs = length (as @ bs)"
    using length_after_elems [of T c xs] unfolding split by simp
  let ?v = "mk xs (length xs)"
  let ?n = "length (as @ bs)"
  let ?i = "length as"
  let ?rest = "replicate (newcap - Suc ?n) (Raw :: 'a slot)"
  let ?gap = "replicate (length bs) (Raw :: 'a slot)"
  let ?B0 = "replicate ?i Raw @ Raw # ?gap @ ?rest"
  let ?B1 = "replicate ?i Raw @ Live x # ?gap @ ?rest"
  let ?B2 = "map Live as @ Live x # ?gap @ ?rest"
  let ?B3 = "map Live as @ Live x # map Live bs @ ?rest"
  let ?S0 = "map Live as @ map Live bs"
  let ?S1 = "map (\<lambda>y. Live (left_behind T y)) as @ map Live bs"
  let ?S2 = "map (\<lambda>y. Live (left_behind T y)) as @ map (\<lambda>y. Live (left_behind T y)) bs"
  have lt: "?n < newcap"
    using cap n by (auto split: if_splits)
  have size: "m_size ?v = ?n" and data: "m_data ?v = map Live xs"
    by (simp_all add: mk_def n)
  have nc: "(if ?n = 0 then 1 else ?n * 2) = newcap"
    using cap unfolding n by (simp only:)
  have "replicate newcap (Raw :: 'a slot) = replicate (Suc ?n) Raw @ ?rest"
    using lt by (intro replicate_split) simp
  then have new: "replicate newcap (Raw :: 'a slot) = ?B0"
    by (simp add: replicate_add replicate_app_Cons_same)
  have alloc: "RawMemory_new T newcap = Some ?B0"
    using RawMemory_new_ok [OF assms(2,3)] new by (simp only:)
  have place: "placement_new T c (map Live xs) ?B0 (RawMemory_plus ?B0 ?i)
      = Returns () (?S0, ?B1) [init_event c x]"
    using placement_new_raw [OF assms(4,5), of "[]" "replicate ?i Raw" "?gap @ ?rest"]
    by (simp add: split x_def)
  have no_as: "\<forall>y\<in>set as. \<not> relocation_throws T y" and no_bs: "\<forall>y\<in>set bs. \<not> relocation_throws T y"
    using assms(7) by simp_all
  have reloc1: "MoveOrCopyToMemory T ?S0 0 ?i ?B1 0
      = Returns () (?S1, ?B2) (map (relocation_event T) as)"
    using MoveOrCopyToMemory_ok [OF no_as, of "[]" "map Live bs" "[]" "Live x # ?gap @ ?rest"]
    by simp
  have diff: "?n - ?i = length bs"
    by simp
  have reloc2: "MoveOrCopyToMemory T ?S1 ?i (length bs) ?B2 (?i + 1)
      = Returns () (?S2, ?B3) (map (relocation_event T) bs)"
    using MoveOrCopyToMemory_ok [OF no_bs, of "map (\<lambda>y. Live (left_behind T y)) as" "[]"
        "map Live as @ [Live x]" ?rest]
    by simp
  have destroy: "destroy_n ?S2 0 ?n
      = Returns () (replicate ?n Raw) (map (\<lambda>y. Dtor (left_behind T y)) (as @ bs))"
    using destroy_left_behind [of T "as @ bs" "[]"] by simp
  have "insert_realloc T c ?v ?i
      = Returns () (?v\<lparr>m_data := ?B3\<rparr>)
          ([init_event c x] @ map (relocation_event T) as @ map (relocation_event T) bs
             @ map (\<lambda>y. Dtor (left_behind T y)) (as @ bs) @ [])"
    unfolding insert_realloc_def
    by (simp only: size data nc alloc option.case place seq_simps reloc1 diff reloc2
          prod.case destroy emits_simps)
  then show ?thesis
    by (simp add: mk_def n x_def)
qed

lemma insert_realloc_bad_alloc:
  "alloc_throws T (if m_size v = 0 then 1 else m_size v * 2) \<Longrightarrow>
     insert_realloc T c v index = Throws bad_alloc v []"
  by (simp add: insert_realloc_def RawMemory_new_def)

lemma insert_realloc_ctor_throws:
  fixes T :: "'a T_model"
  assumes "index \<le> m_size v"
    and "fits T (if m_size v = 0 then 1 else m_size v * 2)"
    and "\<not> alloc_throws T (if m_size v = 0 then 1 else m_size v * 2)"
    and "init_source (m_data v) c = Inr x" and "init_throws T c x"
  shows "insert_realloc T c v index = Throws T_exception v []"
proof -
  define n where "n = (if m_size v = 0 then 1 else m_size v * 2)"
  let ?new = "replicate n (Raw :: 'a slot)"
  have "index \<le> length ?new"
    using assms(1) by (simp add: n_def)
  with assms(4,5) have "placement_new T c (m_data v) ?new (RawMemory_plus ?new index)
      = Throws T_exception (m_data v, ?new) []"
    by (rule placement_new_throws)
  moreover have "RawMemory_new T n = Some ?new"
    using assms(2,3) unfolding n_def [symmetric] by (rule RawMemory_new_ok)
  ultimately show ?thesis
    unfolding insert_realloc_def n_def [symmetric]
    by (simp add: seq_simps)
qed

lemma insert_realloc_strong:
  assumes copy: "\<not> (is_nothrow_move_constructible T \<or> \<not> is_copy_constructible T)"
    and run: "insert_realloc T c v index = Throws e w es"
  shows "w = v \<or> w = husk_left T c v"
proof (cases "RawMemory_new T (if m_size v = 0 then 1 else m_size v * 2)")
  case None
  with run show ?thesis
    by (simp add: insert_realloc_def)
next
  case (Some new_data)
  with run have "seq (placement_new T c (m_data v) new_data (RawMemory_plus new_data index))
              (\<lambda>(old, new_data). v\<lparr>m_data := old\<rparr>)
            (\<lambda>(old, new_data).
          seq (MoveOrCopyToMemory T old 0 index new_data 0)
              (\<lambda>(old, new_data). v\<lparr>m_data := old\<rparr>)
            (\<lambda>(old, new_data).
          seq (MoveOrCopyToMemory T old index (m_size v - index) new_data (index + 1))
              (\<lambda>(old, new_data). v\<lparr>m_data := old\<rparr>)
            (\<lambda>(old, new_data).
          seq (destroy_n old 0 (m_size v)) (\<lambda>old'. v\<lparr>m_data := old'\<rparr>)
            (\<lambda>old'. Returns () (v\<lparr>m_data := new_data\<rparr>) [])))) = Throws e w es"
    by (simp add: insert_realloc_def)
  then show ?thesis
  proof (cases rule: seq_ThrowsE)
    case (first s)
    from placement_new_Throws [OF first(1)] first(2) show ?thesis by simp
  next
    case (rest u s0 es1 es2)
    obtain old0 nd where s0: "s0 = (old0, nd)" by (cases s0)
    from placement_new_Returns [OF rest(1) [unfolded s0]] obtain x
      where x: "init_source (m_data v) c = Inr x" "old0 = after_init T c (m_data v) x"
      by blast
    then have husk: "v\<lparr>m_data := old0\<rparr> = husk_left T c v"
      by (simp add: husk_left_def)
    from rest(2) have "seq (MoveOrCopyToMemory T old0 0 index nd 0)
              (\<lambda>(old, new_data). v\<lparr>m_data := old\<rparr>)
            (\<lambda>(old, new_data).
          seq (MoveOrCopyToMemory T old index (m_size v - index) new_data (index + 1))
              (\<lambda>(old, new_data). v\<lparr>m_data := old\<rparr>)
            (\<lambda>(old, new_data).
          seq (destroy_n old 0 (m_size v)) (\<lambda>old'. v\<lparr>m_data := old'\<rparr>)
            (\<lambda>old'. Returns () (v\<lparr>m_data := new_data\<rparr>) []))) = Throws e w es2"
      by (simp add: s0)
    then have "w = v\<lparr>m_data := old0\<rparr>"
    proof (cases rule: seq_ThrowsE)
      case (first s)
      obtain old nd' where s: "s = (old, nd')" by (cases s)
      with first copy_policy_source(2) [OF copy] have "old = old0"
        by blast
      with first s show ?thesis by simp
    next
      case (rest u' s es3 es4)
      obtain old nd' where s: "s = (old, nd')" by (cases s)
      with rest(1) copy_policy_source(1) [OF copy] have old: "old = old0"
        by blast
      from rest(2) have "seq (MoveOrCopyToMemory T old0 index (m_size v - index) nd' (index + 1))
              (\<lambda>(old, new_data). v\<lparr>m_data := old\<rparr>)
            (\<lambda>(old, new_data).
          seq (destroy_n old 0 (m_size v)) (\<lambda>old'. v\<lparr>m_data := old'\<rparr>)
            (\<lambda>old'. Returns () (v\<lparr>m_data := new_data\<rparr>) [])) = Throws e w es4"
        by (simp add: s old)
      then show ?thesis
        by (rule realloc_tail_strong [OF copy])
    qed
    with husk show ?thesis by simp
  qed
qed

lemma insert_realloc_copy_throws:
  fixes T :: "'a T_model"
  assumes copy: "\<not> (is_nothrow_move_constructible T \<or> \<not> is_copy_constructible T)"
    and cap: "newcap = (if length xs = 0 then 1 else length xs * 2)"
    and "fits T newcap" and "\<not> alloc_throws T newcap"
    and "init_ok xs c" and "\<not> init_throws T c (init_value xs c)"
    and split: "after_elems T c xs = as @ bs"
    and "\<exists>y\<in>set (as @ bs). copy_ctor_throws T y"
  shows "\<exists>es. insert_realloc T c (mk xs (length xs)) (length as)
           = Throws T_exception (mk (as @ bs) (length xs)) es"
proof -
  define x where "x = init_value xs c"
  have n: "length xs = length (as @ bs)"
    using length_after_elems [of T c xs] unfolding split by simp
  let ?v = "mk xs (length xs)"
  let ?n = "length (as @ bs)"
  let ?i = "length as"
  let ?rest = "replicate (newcap - Suc ?n) (Raw :: 'a slot)"
  let ?gap = "replicate (length bs) (Raw :: 'a slot)"
  let ?B0 = "replicate ?i Raw @ Raw # ?gap @ ?rest"
  let ?B1 = "replicate ?i Raw @ Live x # ?gap @ ?rest"
  let ?B2 = "map Live as @ Live x # ?gap @ ?rest"
  let ?S0 = "map Live as @ map Live bs"
  have lt: "?n < newcap"
    using cap n by (auto split: if_splits)
  have size: "m_size ?v = ?n" and data: "m_data ?v = map Live xs"
    by (simp_all add: mk_def n)
  have same: "?v\<lparr>m_data := ?S0\<rparr> = mk (as @ bs) (length xs)"
    by (simp add: mk_def n)
  have nc: "(if ?n = 0 then 1 else ?n * 2) = newcap"
    using cap unfolding n by (simp only:)
  have "replicate newcap (Raw :: 'a slot) = replicate (Suc ?n) Raw @ ?rest"
    using lt by (intro replicate_split) simp
  then have new: "replicate newcap (Raw :: 'a slot) = ?B0"
    by (simp add: replicate_add replicate_app_Cons_same)
  have alloc: "RawMemory_new T newcap = Some ?B0"
    using RawMemory_new_ok [OF assms(3,4)] new by (simp only:)
  have place: "placement_new T c (map Live xs) ?B0 (RawMemory_plus ?B0 ?i)
      = Returns () (?S0, ?B1) [init_event c x]"
    using placement_new_raw [OF assms(5,6), of "[]" "replicate ?i Raw" "?gap @ ?rest"]
    by (simp add: split x_def)
  have diff: "?n - ?i = length bs"
    by simp
  show ?thesis
  proof (cases "\<exists>y\<in>set as. copy_ctor_throws T y")
    case True
    then obtain ys z zs where as: "as = ys @ z # zs" and z: "copy_ctor_throws T z"
      and ys: "\<forall>y\<in>set ys. \<not> copy_ctor_throws T y"
      by (rule first_throwing)
    have reloc1: "MoveOrCopyToMemory T ?S0 0 ?i ?B1 0
        = Throws T_exception (?S0, ?B1) (map CopyCtor ys @ map Dtor ys)"
      using MoveOrCopyToMemory_copy_throws [OF copy ys z, of "[]" zs "map Live bs" "[]"
          "Live x # ?gap @ ?rest"]
      unfolding as [symmetric] by simp
    have "insert_realloc T c ?v ?i
        = Throws T_exception (mk (as @ bs) (length xs))
            ([init_event c x] @ map CopyCtor ys @ map Dtor ys)"
      unfolding insert_realloc_def
      by (simp only: size data nc alloc option.case place seq_simps reloc1 prod.case
            emits_simps same)
    then show ?thesis ..
  next
    case False
    then have no_as: "\<forall>y\<in>set as. \<not> relocation_throws T y"
      using copy by (simp add: relocation_throws_def)
    from False assms(8) have "\<exists>y\<in>set bs. copy_ctor_throws T y"
      by auto
    then obtain ys z zs where bs: "bs = ys @ z # zs" and z: "copy_ctor_throws T z"
      and ys: "\<forall>y\<in>set ys. \<not> copy_ctor_throws T y"
      by (rule first_throwing)
    have lb: "map (\<lambda>y. Live (left_behind T y)) as = map Live as"
      using copy by (simp add: left_behind_def)
    have reloc1: "MoveOrCopyToMemory T ?S0 0 ?i ?B1 0
        = Returns () (?S0, ?B2) (map (relocation_event T) as)"
      using MoveOrCopyToMemory_ok [OF no_as, of "[]" "map Live bs" "[]" "Live x # ?gap @ ?rest"]
      by (simp add: lb)
    have reloc2: "MoveOrCopyToMemory T ?S0 ?i (length bs) ?B2 (?i + 1)
        = Throws T_exception (?S0, ?B2) (map CopyCtor ys @ map Dtor ys)"
      using MoveOrCopyToMemory_copy_throws [OF copy ys z, of "map Live as" zs "[]"
          "map Live as @ [Live x]" ?rest]
      unfolding bs [symmetric] by simp
    have "insert_realloc T c ?v ?i
        = Throws T_exception (mk (as @ bs) (length xs))
            ([init_event c x] @ map (relocation_event T) as @ map CopyCtor ys @ map Dtor ys)"
      unfolding insert_realloc_def
      by (simp only: size data nc alloc option.case place seq_simps reloc1 diff reloc2
            prod.case emits_simps same)
    then show ?thesis ..
  qed
qed

subsection \<open>Shifting elements inside the block\<close>

lemma move_assign_slot_down:
  assumes "\<not> move_assign_throws T x"
  shows "move_assign_slot T (pre @ Live a # Live x # post) (Suc (length pre)) (length pre)
         = Returns () (pre @ Live x # Live (moved_from T x) # post) [MoveAssign x]"
proof -
  have "read_obj ((pre @ [Live a]) @ Live x # post) (length (pre @ [Live a])) = Inr x"
    by (rule read_obj_live)
  then have r1: "read_obj (pre @ Live a # Live x # post) (Suc (length pre)) = Inr x"
    by simp
  have r2: "read_obj (pre @ Live a # Live x # post) (length pre) = Inr a"
    by (rule read_obj_live)
  have "(pre @ Live x # Live x # post)[Suc (length pre) := Live (moved_from T x)]
      = ((pre @ [Live x]) @ Live x # post)[length (pre @ [Live x]) := Live (moved_from T x)]"
    by simp
  also have "\<dots> = (pre @ [Live x]) @ Live (moved_from T x) # post"
    by (rule list_update_length)
  finally have upd: "(pre @ Live x # Live x # post)[Suc (length pre) := Live (moved_from T x)]
      = pre @ Live x # Live (moved_from T x) # post"
    by simp
  show ?thesis
    using assms by (simp add: move_assign_slot_def r1 r2 upd)
qed

text \<open>\<^verbatim>\<open>std::move\<close> one slot to the left: the elements \<open>xs\<close> behind the slot that held
  \<open>a\<close> end up one slot lower, and the last slot of the range holds a moved-from
  object (or still \<open>a\<close>, when there was nothing to move).\<close>

lemma move_loop_down:
  assumes "\<forall>x\<in>set xs. \<not> move_assign_throws T x"
  shows "move_loop T (pre @ Live a # map Live xs @ post) (Suc (length pre)) (length xs) (length pre)
         = Returns ()
             (pre @ map Live xs @ Live (if xs = [] then a else moved_from T (last xs)) # post)
             (map MoveAssign xs)"
  using assms
proof (induction xs arbitrary: pre a)
  case Nil
  then show ?case by simp
next
  case (Cons x xs)
  have step: "move_assign_slot T (pre @ Live a # Live x # map Live xs @ post)
                (Suc (length pre)) (length pre)
         = Returns () (pre @ Live x # Live (moved_from T x) # map Live xs @ post) [MoveAssign x]"
    using Cons.prems by (intro move_assign_slot_down) simp
  have "move_loop T ((pre @ [Live x]) @ Live (moved_from T x) # map Live xs @ post)
          (Suc (length (pre @ [Live x]))) (length xs) (length (pre @ [Live x]))
        = Returns ()
            ((pre @ [Live x]) @ map Live xs
               @ Live (if xs = [] then moved_from T x else moved_from T (last xs)) # post)
            (map MoveAssign xs)"
    using Cons.prems by (intro Cons.IH) simp
  then show ?case
    by (simp add: step seq_simps emits_simps)
qed

lemma move_assign_slot_up:
  assumes "\<not> move_assign_throws T x"
  shows "move_assign_slot T (pre @ Live x # Live b # post) (length pre) (Suc (length pre))
         = Returns () (pre @ Live (moved_from T x) # Live x # post) [MoveAssign x]"
proof -
  have r1: "read_obj (pre @ Live x # Live b # post) (length pre) = Inr x"
    by (rule read_obj_live)
  have "read_obj ((pre @ [Live x]) @ Live b # post) (length (pre @ [Live x])) = Inr b"
    by (rule read_obj_live)
  then have r2: "read_obj (pre @ Live x # Live b # post) (Suc (length pre)) = Inr b"
    by simp
  have "(pre @ Live x # Live b # post)[Suc (length pre) := Live x]
      = ((pre @ [Live x]) @ Live b # post)[length (pre @ [Live x]) := Live x]"
    by simp
  also have "\<dots> = (pre @ [Live x]) @ Live x # post"
    by (rule list_update_length)
  finally have upd: "(pre @ Live x # Live b # post)[Suc (length pre) := Live x]
      = pre @ Live x # Live x # post"
    by simp
  show ?thesis
    using assms by (simp add: move_assign_slot_def r1 r2 upd)
qed

text \<open>\<^verbatim>\<open>std::move_backward\<close> one slot to the right: the elements \<open>xs\<close> end up one slot
  higher, over the object \<open>b\<close> behind them, and the first slot of the range holds a
  moved-from object (or still \<open>b\<close>).\<close>

lemma move_backward_loop_up:
  assumes "\<forall>x\<in>set xs. \<not> move_assign_throws T x"
  shows "move_backward_loop T (pre @ map Live xs @ Live b # post) (length xs)
           (length pre + length xs) (Suc (length pre + length xs))
         = Returns ()
             (pre @ Live (if xs = [] then b else moved_from T (hd xs)) # map Live xs @ post)
             (map MoveAssign (rev xs))"
  using assms
proof (induction xs arbitrary: b post rule: rev_induct)
  case Nil
  then show ?case by simp
next
  case (snoc x xs)
  have step: "move_assign_slot T ((pre @ map Live xs) @ Live x # Live b # post)
                (length (pre @ map Live xs)) (Suc (length (pre @ map Live xs)))
         = Returns () ((pre @ map Live xs) @ Live (moved_from T x) # Live x # post) [MoveAssign x]"
    using snoc.prems by (intro move_assign_slot_up) simp
  have rec: "move_backward_loop T (pre @ map Live xs @ Live (moved_from T x) # Live x # post)
          (length xs) (length pre + length xs) (Suc (length pre + length xs))
        = Returns ()
            (pre @ Live (if xs = [] then moved_from T x else moved_from T (hd xs)) # map Live xs
               @ Live x # post)
            (map MoveAssign (rev xs))"
    using snoc.prems by (intro snoc.IH) simp
  show ?case
    using step rec by (simp add: seq_simps emits_simps)
qed

subsection \<open>PopBack and Erase\<close>

lemma PopBack_live:
  "PopBack \<lparr>m_data = pre @ Live h # post, m_size = Suc (length pre)\<rparr>
     = Returns () \<lparr>m_data = pre @ Raw # post, m_size = length pre\<rparr> [Dtor h]"
  by (simp add: PopBack_def RawMemory_at_def read_obj_live seq_simps emits_simps)

lemma raw_tail: "n < cap \<Longrightarrow> replicate (cap - n) a = a # replicate (cap - Suc n) a"
  by (cases "cap - n") simp_all

lemma PopBack_ok:
  assumes "length xs < cap"
  shows "PopBack (mk (xs @ [x]) cap) = Returns () (mk xs cap) [Dtor x]"
  using PopBack_live [of "map Live xs" x "replicate (cap - Suc (length xs)) Raw"] assms
  by (simp add: mk_def raw_tail)

lemma PopBack_empty: "PopBack (mk [] cap) = Returns () (mk [] cap) []"
  by (simp add: PopBack_def mk_def)

lemma Erase_ok:
  fixes T :: "'a T_model"
  assumes "length (as @ a # bs) \<le> cap" and "\<forall>x\<in>set bs. \<not> move_assign_throws T x"
  shows "Erase T (mk (as @ a # bs) cap) (length as)
         = Returns (length as) (mk (as @ bs) cap)
             (map MoveAssign bs @ [Dtor (if bs = [] then a else moved_from T (last bs))])"
proof -
  let ?rest = "replicate (cap - length (as @ a # bs)) (Raw :: 'a slot)"
  let ?h = "if bs = [] then a else moved_from T (last bs)"
  let ?v = "mk (as @ a # bs) cap"
  have data: "m_data ?v = map Live as @ Live a # map Live bs @ ?rest"
    and "end": "cend ?v = Suc (length as + length bs)"
    by (simp_all add: mk_def cend_def)
  have shift: "std_move T (map Live as @ Live a # map Live bs @ ?rest) (length as + 1)
        (Suc (length as + length bs)) (length as)
      = Returns () (map Live as @ map Live bs @ Live ?h # ?rest) (map MoveAssign bs)"
    using move_loop_down [OF assms(2), of "map Live as" a ?rest]
    by (simp add: std_move_def)
  have pop: "PopBack (?v\<lparr>m_data := map Live as @ map Live bs @ Live ?h # ?rest\<rparr>)
      = Returns () \<lparr>m_data = map Live as @ map Live bs @ Raw # ?rest,
          m_size = length as + length bs\<rparr> [Dtor ?h]"
    using PopBack_live [of "map Live as @ map Live bs" ?h ?rest]
    by (simp add: mk_def)
  have fin: "\<lparr>m_data = map Live as @ map Live bs @ Raw # ?rest,
          m_size = length as + length bs\<rparr> = mk (as @ bs) cap"
    using assms(1) raw_tail [of "length as + length bs" cap "Raw :: 'a slot"]
    by (simp add: mk_def)
  show ?thesis
    unfolding Erase_def
    by (simp only: data "end" shift seq_simps pop emits_simps fin id_apply append_Nil2)
qed

lemma Erase_past_the_end: "Erase T v (cend v) = Fault BadRange"
  by (simp add: Erase_def std_move_def seq_simps)

subsection \<open>Insertion in place\<close>

lemma size_t_pred_pos: "0 < n \<Longrightarrow> n \<le> SIZE_MAX \<Longrightarrow> size_t_pred n = n - 1"
proof -
  assume n: "0 < n" "n \<le> SIZE_MAX"
  have "n + SIZE_MAX = (n - 1) + 1 * (SIZE_MAX + 1)"
    using n by simp
  then have "(n + SIZE_MAX) mod (SIZE_MAX + 1) = (n - 1) mod (SIZE_MAX + 1)"
    by (simp only: mod_mult_self1)
  also have "\<dots> = n - 1"
    using n by simp
  finally show ?thesis
    by (simp add: size_t_pred_def)
qed

lemma size_t_pred_0: "size_t_pred 0 = SIZE_MAX"
  by (simp add: size_t_pred_def)

lemma move_last_up_ok:
  fixes T :: "'a T_model"
  assumes "length (xs @ [l]) < cap" and "cap \<le> SIZE_MAX" and "\<not> move_ctor_throws T l"
  shows "move_last_up T (mk (xs @ [l]) cap)
         = Returns ()
             (map Live xs @ Live (moved_from T l) # Live l
                # replicate (cap - Suc (length (xs @ [l]))) Raw)
             [MoveCtor l]"
proof -
  let ?n = "length (xs @ [l])"
  let ?rest = "replicate (cap - Suc ?n) (Raw :: 'a slot)"
  let ?v = "mk (xs @ [l]) cap"
  let ?d = "map Live xs @ Live l # Raw # ?rest"
  have data: "m_data ?v = ?d" and size: "m_size ?v = ?n"
    using assms(1) raw_tail [of ?n cap "Raw :: 'a slot"] by (simp_all add: mk_def)
  have len: "length ?d = cap"
    using assms(1) by simp
  have pred: "size_t_pred ?n = length xs"
    using assms(1,2) size_t_pred_pos [of ?n] by simp
  have plus: "RawMemory_plus ?d ?n = Inr ?n"
    using assms(1) by (simp add: RawMemory_plus_def)
  have at: "RawMemory_at ?d (length xs) = Inr (length xs)"
    by (simp add: RawMemory_at_def)
  have rd: "read_obj ?d (length xs) = Inr l"
    using read_obj_live [of "map Live xs" l "Raw # ?rest"] by simp
  have "construct_at ((map Live xs @ [Live l]) @ Raw # ?rest) (length (map Live xs @ [Live l])) l
      = Inr ((map Live xs @ [Live l]) @ Live l # ?rest)"
    by (rule construct_at_raw)
  then have con: "construct_at ?d ?n l = Inr (map Live xs @ Live l # Live l # ?rest)"
    by simp
  have upd: "(map Live xs @ Live l # Live l # ?rest)[length xs := Live (moved_from T l)]
      = map Live xs @ Live (moved_from T l) # Live l # ?rest"
    using list_update_length [of "map Live xs" "Live l" "Live l # ?rest" "Live (moved_from T l)"]
    by simp
  show ?thesis
    unfolding move_last_up_def
    using assms(3)
    by (simp only: data size pred plus at rd con upd sum.case if_False)
qed

lemma assign_new_item_ok:
  assumes "\<not> move_assign_throws T x"
  shows "assign_new_item T (pre @ Live h # post) (length pre) x
         = Returns () (pre @ Live x # post) [MoveAssign x]"
  using assms by (simp add: assign_new_item_def RawMemory_at_def read_obj_live)

lemma insert_in_place_ok:
  fixes T :: "'a T_model"
  assumes "length xs < cap" and "cap \<le> SIZE_MAX"
    and "init_ok xs c" and "\<not> init_throws T c (init_value xs c)"
    and split: "after_elems T c xs = as @ cs @ [l]"
    and "\<not> move_ctor_throws T l"
    and "\<forall>y\<in>set cs. \<not> move_assign_throws T y"
    and "\<not> move_assign_throws T (init_value xs c)"
  shows "insert_in_place T c (mk xs cap) (length as)
         = Returns ()
             \<lparr>m_data = map Live (as @ init_value xs c # cs @ [l])
                  @ replicate (cap - Suc (length xs)) Raw,
                m_size = length xs\<rparr>
             (init_event c (init_value xs c) # MoveCtor l # map MoveAssign (rev cs)
                @ [MoveAssign (init_value xs c), Dtor (moved_from T (init_value xs c))])"
proof -
  define x where "x = init_value xs c"
  have n: "length xs = length (as @ cs @ [l])"
    using length_after_elems [of T c xs] unfolding split by simp
  let ?n = "length (as @ cs @ [l])"
  let ?rest = "replicate (cap - Suc ?n) (Raw :: 'a slot)"
  let ?v = "mk xs cap"
  let ?u = "mk (as @ cs @ [l]) cap"
  let ?h = "if cs = [] then moved_from T l else moved_from T (hd cs)"
  let ?m1 = "map Live (as @ cs) @ Live (moved_from T l) # Live l # ?rest"
  let ?m2 = "map Live as @ Live ?h # map Live cs @ Live l # ?rest"
  let ?m3 = "map Live as @ Live x # map Live cs @ Live l # ?rest"
  have src: "init_source (m_data ?v) c = Inr x"
    and aft: "?v\<lparr>m_data := after_init T c (m_data ?v) x\<rparr> = ?u"
    unfolding x_def by (simp_all add: mk_def init_on_block [OF assms(3)] split n)
  have nothrow: "init_throws T c x = False"
    using assms(4) by (simp add: x_def)
  have up: "move_last_up T ?u = Returns () ?m1 [MoveCtor l]"
    using move_last_up_ok [of "as @ cs" l cap T] assms(1,2,6) n by simp
  have "end": "cend ?v = ?n"
    by (simp add: cend_def n)
  have "move_backward_loop T (map Live as @ map Live cs @ Live (moved_from T l) # Live l # ?rest)
          (length cs) (length (map Live as) + length cs) (Suc (length (map Live as) + length cs))
      = Returns () (map Live as @ Live ?h # map Live cs @ Live l # ?rest)
          (map MoveAssign (rev cs))"
    by (rule move_backward_loop_up [OF assms(7)])
  then have shift: "move_backward T ?m1 (length as) (?n - 1) ?n
      = Returns () ?m2 (map MoveAssign (rev cs))"
    by (simp add: move_backward_def)
  have "\<not> move_assign_throws T x"
    using assms(8) by (simp add: x_def)
  then have assign: "assign_new_item T ?m2 (length as) x = Returns () ?m3 [MoveAssign x]"
    using assign_new_item_ok [of T x "map Live as" ?h "map Live cs @ Live l # ?rest"]
    by simp
  have "insert_in_place T c ?v (length as)
      = Returns () (?v\<lparr>m_data := ?m3\<rparr>)
          ([init_event c x] @ (([MoveCtor l] @ map MoveAssign (rev cs) @ [MoveAssign x] @ [])
              @ [Dtor (moved_from T x)]))"
    unfolding insert_in_place_def
    by (simp only: src sum.case nothrow if_False aft up "end" shift assign seq_simps emits_simps
          leave_scope_simps)
  then show ?thesis
    by (simp add: mk_def n x_def)
qed

text \<open>With spare capacity and \<open>pos\<close> at the end, the in-place branch reads
  \<^verbatim>\<open>data_[size_ - 1]\<close> of an empty vector, or hands \<^verbatim>\<open>std::move_backward\<close> the range
  from \<^verbatim>\<open>end()\<close> to \<^verbatim>\<open>end() - 1\<close>.\<close>

lemma insert_in_place_at_end:
  fixes T :: "'a T_model"
  assumes "length xs < cap" and "cap \<le> SIZE_MAX"
    and "init_ok xs c" and "\<not> init_throws T c (init_value xs c)"
    and "\<forall>y\<in>set (after_elems T c xs). \<not> move_ctor_throws T y"
  shows "insert_in_place T c (mk xs cap) (length xs)
         = Fault (if xs = [] then AssertFail else BadRange)"
proof -
  define x where "x = init_value xs c"
  define xs' where "xs' = after_elems T c xs"
  have len: "length xs' = length xs"
    by (simp add: xs'_def)
  let ?v = "mk xs cap"
  have src: "init_source (m_data ?v) c = Inr x"
    and aft: "?v\<lparr>m_data := after_init T c (m_data ?v) x\<rparr> = mk xs' cap"
    unfolding x_def xs'_def by (simp_all add: mk_def init_on_block [OF assms(3)])
  have nothrow: "init_throws T c x = False"
    using assms(4) by (simp add: x_def)
  show ?thesis
  proof (cases xs' rule: rev_cases)
    case Nil
    with len have xs: "xs = []"
      by simp
    have "RawMemory_at (replicate cap (Raw :: 'a slot)) SIZE_MAX = Inl AssertFail"
      using assms(2) by (simp add: RawMemory_at_def)
    then have up: "move_last_up T (mk [] cap) = Fault AssertFail"
      using assms(1) xs by (simp add: move_last_up_def mk_def size_t_pred_0 RawMemory_plus_def)
    have "insert_in_place T c ?v (length xs) = Fault AssertFail"
      unfolding insert_in_place_def
      by (simp only: src sum.case nothrow if_False aft Nil up seq_simps emits_simps
            leave_scope_simps)
    with xs show ?thesis
      by simp
  next
    case (snoc ys l)
    have n: "length xs = length (ys @ [l])"
      using len snoc by simp
    let ?rest = "replicate (cap - Suc (length (ys @ [l]))) (Raw :: 'a slot)"
    let ?m1 = "map Live ys @ Live (moved_from T l) # Live l # ?rest"
    have "\<not> move_ctor_throws T l"
      using assms(5) snoc by (simp add: xs'_def)
    then have up: "move_last_up T (mk (ys @ [l]) cap) = Returns () ?m1 [MoveCtor l]"
      using move_last_up_ok [of ys l cap T] assms(1,2) n by simp
    have shift: "move_backward T ?m1 (length xs) (cend ?v - 1) (cend ?v) = Fault BadRange"
      using n by (simp add: move_backward_def cend_def)
    have "insert_in_place T c ?v (length xs) = Fault BadRange"
      unfolding insert_in_place_def
      by (simp only: src sum.case nothrow if_False aft snoc up shift seq_simps emits_simps
            leave_scope_simps)
    moreover have "xs \<noteq> []"
      using n by auto
    ultimately show ?thesis
      by simp
  qed
qed

subsection \<open>Emplace and Insert\<close>

lemma Insert_body_realloc_ok:
  fixes T :: "'a T_model"
  assumes "newcap = (if length xs = 0 then 1 else length xs * 2)"
    and "fits T newcap" and "\<not> alloc_throws T newcap"
    and "init_ok xs c" and "\<not> init_throws T c (init_value xs c)"
    and split: "after_elems T c xs = as @ bs"
    and "\<forall>y\<in>set (as @ bs). \<not> relocation_throws T y"
  shows "Insert_body T c (mk xs (length xs)) (length as)
         = Returns (length as) (mk (as @ init_value xs c # bs) newcap)
             (init_event c (init_value xs c) # map (relocation_event T) (as @ bs)
                @ map (\<lambda>y. Dtor (left_behind T y)) (as @ bs))"
proof -
  let ?v = "mk xs (length xs)"
  have n: "length xs = length (as @ bs)"
    using length_after_elems [of T c xs] unfolding split by simp
  have pos: "length as \<le> cend ?v" and full: "Capacity ?v = m_size ?v"
    by (simp_all add: cend_def n)
  show ?thesis
    unfolding Insert_body_def
    apply (simp only: pos full simp_thms if_True insert_realloc_ok [OF assms] seq_simps
        emits_simps id_apply)
    apply (simp add: mk_def n)
    done
qed

lemma Emplace_realloc_ok:
  fixes T :: "'a T_model"
  assumes "newcap = (if length xs = 0 then 1 else length xs * 2)"
    and "fits T newcap" and "\<not> alloc_throws T newcap"
    and "init_ok xs c" and "\<not> init_throws T c (init_value xs c)"
    and split: "after_elems T c xs = as @ bs"
    and "\<forall>y\<in>set (as @ bs). \<not> relocation_throws T y"
  shows "Emplace T (mk xs (length xs)) (length as) c
         = Returns (length as) (mk (as @ init_value xs c # bs) newcap)
             (init_event c (init_value xs c) # map (relocation_event T) (as @ bs)
                @ map (\<lambda>y. Dtor (left_behind T y)) (as @ bs))"
proof -
  let ?v = "mk xs (length xs)"
  have n: "length xs = length (as @ bs)"
    using length_after_elems [of T c xs] unfolding split by simp
  have pos: "length as \<le> cend ?v" and full: "Capacity ?v = m_size ?v"
    by (simp_all add: cend_def n)
  show ?thesis
    unfolding Emplace_def
    apply (simp only: pos full simp_thms if_True insert_realloc_ok [OF assms] seq_simps
        emits_simps id_apply)
    apply (simp add: mk_def n)
    done
qed

lemma Insert_body_in_place_ok:
  fixes T :: "'a T_model"
  assumes "length xs < cap" and "cap \<le> SIZE_MAX"
    and "init_ok xs c" and "\<not> init_throws T c (init_value xs c)"
    and split: "after_elems T c xs = as @ cs @ [l]"
    and "\<not> move_ctor_throws T l"
    and "\<forall>y\<in>set cs. \<not> move_assign_throws T y"
    and "\<not> move_assign_throws T (init_value xs c)"
  shows "Insert_body T c (mk xs cap) (length as)
         = Returns (length as) (mk (as @ init_value xs c # cs @ [l]) cap)
             (init_event c (init_value xs c) # MoveCtor l # map MoveAssign (rev cs)
                @ [MoveAssign (init_value xs c), Dtor (moved_from T (init_value xs c))])"
proof -
  let ?v = "mk xs cap"
  have n: "length xs = length (as @ cs @ [l])"
    using length_after_elems [of T c xs] unfolding split by simp
  have pos: "length as \<le> cend ?v" and spare: "Capacity ?v \<noteq> m_size ?v"
    using assms(1) by (simp_all add: cend_def n)
  show ?thesis
    unfolding Insert_body_def
    apply (simp only: pos spare if_True if_False insert_in_place_ok [OF assms] seq_simps
        emits_simps id_apply)
    apply (simp add: mk_def n)
    done
qed

lemma Emplace_in_place_ok:
  fixes T :: "'a T_model"
  assumes "length xs < cap" and "cap \<le> SIZE_MAX"
    and "init_ok xs c" and "\<not> init_throws T c (init_value xs c)"
    and split: "after_elems T c xs = as @ cs @ [l]"
    and "\<not> move_ctor_throws T l"
    and "\<forall>y\<in>set cs. \<not> move_assign_throws T y"
    and "\<not> move_assign_throws T (init_value xs c)"
  shows "Emplace T (mk xs cap) (length as) c
         = Returns (length as) (mk (as @ init_value xs c # cs @ [l]) cap)
             (init_event c (init_value xs c) # MoveCtor l # map MoveAssign (rev cs)
                @ [MoveAssign (init_value xs c), Dtor (moved_from T (init_value xs c))])"
proof -
  let ?v = "mk xs cap"
  have n: "length xs = length (as @ cs @ [l])"
    using length_after_elems [of T c xs] unfolding split by simp
  have pos: "length as \<le> cend ?v" and spare: "Capacity ?v \<noteq> m_size ?v"
    and mid: "length as \<noteq> cend ?v"
    using assms(1) by (simp_all add: cend_def n)
  show ?thesis
    unfolding Emplace_def
    apply (simp only: pos spare mid if_True if_False insert_in_place_ok [OF assms] seq_simps
        emits_simps id_apply)
    apply (simp add: mk_def n)
    done
qed

lemma Emplace_at_end_in_place_ok:
  fixes T :: "'a T_model"
  assumes "length xs < cap" and "init_ok xs c" and "\<not> init_throws T c (init_value xs c)"
  shows "Emplace T (mk xs cap) (length xs) c
         = Returns (length xs) (mk (after_elems T c xs @ [init_value xs c]) cap)
             [init_event c (init_value xs c)]"
proof -
  let ?rest = "replicate (cap - Suc (length xs)) (Raw :: 'a slot)"
  have data: "m_data (mk xs cap) = map Live xs @ Raw # ?rest"
    using assms(1) raw_tail [of "length xs" cap "Raw :: 'a slot"] by (simp add: mk_def)
  have place: "placement_new_here T c (map Live xs @ Raw # ?rest)
          (RawMemory_plus (map Live xs @ Raw # ?rest) (length xs))
        = Returns () (map Live (after_elems T c xs) @ Live (init_value xs c) # ?rest)
            [init_event c (init_value xs c)]"
    using assms(2,3) by (rule placement_new_here_raw)
  have "Capacity (mk xs cap) \<noteq> m_size (mk xs cap)"
    using assms(1) by simp
  then show ?thesis
    by (simp add: Emplace_def cend_def data place seq_simps emits_simps) (simp add: mk_def)
qed

lemma Insert_body_at_end_in_place:
  fixes T :: "'a T_model"
  assumes "length xs < cap" and "cap \<le> SIZE_MAX"
    and "init_ok xs c" and "\<not> init_throws T c (init_value xs c)"
    and "\<forall>y\<in>set (after_elems T c xs). \<not> move_ctor_throws T y"
  shows "Insert_body T c (mk xs cap) (length xs)
         = Fault (if xs = [] then AssertFail else BadRange)"
proof -
  have pos: "length xs \<le> cend (mk xs cap)" and spare: "Capacity (mk xs cap) \<noteq> m_size (mk xs cap)"
    using assms(1) by (simp_all add: cend_def)
  show ?thesis
    unfolding Insert_body_def
    by (simp only: pos spare if_True if_False insert_in_place_at_end [OF assms] seq_simps)
qed

lemma by_value [simp]:
  "init_ok xs (Copying (Outside x))" "init_value xs (Copying (Outside x)) = x"
  "after_elems T (Copying (Outside x)) xs = xs"
  "init_event (Copying (Outside x)) y = CopyCtor y"
  "init_throws T (Copying (Outside x)) y = copy_ctor_throws T y"
  "\<not> moves_from_element (Copying (Outside x))"
  by (simp_all add: init_ok_def arg_ok_def init_value_def arg_of_def after_elems_def
        init_event_def init_throws_def moves_from_element_def)

lemma by_args [simp]:
  "init_ok xs (Building x)" "init_value xs (Building x) = x"
  "after_elems T (Building x) xs = xs"
  "init_event (Building x) y = ArgsCtor y"
  "init_throws T (Building x) y = args_ctor_throws T y"
  "\<not> moves_from_element (Building x)"
  by (simp_all add: init_ok_def arg_ok_def init_value_def arg_of_def after_elems_def
        init_event_def init_throws_def moves_from_element_def)

lemma by_move [simp]:
  "init_ok xs (Moving a) = arg_ok xs a" "init_value xs (Moving a) = arg_of xs a"
  "init_event (Moving a) y = MoveCtor y"
  "init_throws T (Moving a) y = move_ctor_throws T y"
  by (simp_all add: init_ok_def init_value_def init_event_def init_throws_def)

lemma by_move_outside [simp]:
  "arg_ok xs (Outside x)" "arg_of xs (Outside x) = x"
  "after_elems T (Moving (Outside x)) xs = xs"
  "\<not> moves_from_element (Moving (Outside x))"
  by (simp_all add: arg_ok_def arg_of_def after_elems_def moves_from_element_def)

lemma by_move_element [simp]:
  "arg_ok xs (Element k) = (k < length xs)" "arg_of xs (Element k) = xs ! k"
  "after_elems T (Moving (Element k)) xs = xs[k := moved_from T (xs ! k)]"
  "moves_from_element (Moving (Element k))"
  by (simp_all add: arg_ok_def arg_of_def after_elems_def moves_from_element_def)

section \<open>Insertion at a position\<close>

text \<open>
  C2 (the code departs from the claim).  With spare capacity, \<open>Insert\<close> at \<open>pos = end\<close>
  does not insert: on an empty vector of capacity 1 the assertion of
  \<^verbatim>\<open>RawMemory::operator[]\<close> fails on \<^verbatim>\<open>data_[size_ - 1]\<close>, and on five elements in
  capacity 8 \<^verbatim>\<open>std::move_backward\<close> is called on the range from \<^verbatim>\<open>end()\<close> to
  \<^verbatim>\<open>end() - 1\<close>.  \<open>Emplace\<close>, which tests \<^verbatim>\<open>pos == cend()\<close>, appends in both cases.
\<close>

theorem Insert_at_end_with_spare_capacity:
  "Insert (plain 0) (mk [] 1) 0 (5 :: int) = Fault AssertFail \<and>
   Insert (plain 0) (mk [1, 2, 3, 4, 5] 8) 5 (99 :: int) = Fault BadRange \<and>
   Emplace (plain 0) (mk [] 1) 0 (Building (5 :: int)) = Returns 0 (mk [5] 1) [ArgsCtor 5] \<and>
   Emplace (plain 0) (mk [1, 2, 3, 4, 5] 8) 5 (Building (99 :: int))
     = Returns 5 (mk [1, 2, 3, 4, 5, 99] 8) [ArgsCtor 99]"
proof -
  have l0: "length ([] :: int list) = 0" and l5: "length [1, 2, 3, 4, 5 :: int] = 5"
    by simp_all
  have "Insert_body (plain (0 :: int)) (Copying (Outside 5)) (mk [] 1) 0 = Fault AssertFail"
    using Insert_body_at_end_in_place [of "[]" 1 "Copying (Outside 5)" "plain (0 :: int)"]
    unfolding l0 by (simp add: SIZE_MAX_def plain_def)
  moreover have "Insert_body (plain (0 :: int)) (Copying (Outside 99)) (mk [1, 2, 3, 4, 5] 8) 5
      = Fault BadRange"
    using Insert_body_at_end_in_place [of "[1, 2, 3, 4, 5]" 8 "Copying (Outside 99)"
        "plain (0 :: int)"]
    unfolding l5 by (simp add: SIZE_MAX_def plain_def)
  moreover have "Emplace (plain (0 :: int)) (mk [] 1) 0 (Building 5)
      = Returns 0 (mk [5] 1) [ArgsCtor 5]"
    using Emplace_at_end_in_place_ok [of "[]" 1 "Building 5" "plain (0 :: int)"]
    unfolding l0 by (simp add: plain_def)
  moreover have "Emplace (plain (0 :: int)) (mk [1, 2, 3, 4, 5] 8) 5 (Building 99)
      = Returns 5 (mk [1, 2, 3, 4, 5, 99] 8) [ArgsCtor 99]"
    using Emplace_at_end_in_place_ok [of "[1, 2, 3, 4, 5]" 8 "Building 99" "plain (0 :: int)"]
    unfolding l5 by (simp add: plain_def)
  ultimately show ?thesis
    by (simp add: Insert_def)
qed

section \<open>The transfer policy\<close>

lemma policy_trace_eq:
  "policy_trace T xs = map (relocation_event T) xs @ map (\<lambda>y. Dtor (left_behind T y)) xs"
  by (simp add: policy_trace_def relocation_event_def left_behind_def)

lemma full_vector:
  assumes "wf v" and "Capacity v = Size v"
  shows "v = mk (elems v) (length (elems v))"
    and "max 1 (2 * Capacity v) = (if length (elems v) = 0 then 1 else length (elems v) * 2)"
proof -
  have "length (elems v) = Capacity v"
    using assms wf_bounds(3) [OF assms(1)] by (simp add: Size_def)
  then show "v = mk (elems v) (length (elems v))"
    using wf_is_mk [OF assms(1)] by simp
  show "max 1 (2 * Capacity v) = (if length (elems v) = 0 then 1 else length (elems v) * 2)"
    using \<open>length (elems v) = Capacity v\<close> by (auto simp: max_def)
qed

text \<open>Twice the capacity of a vector, and one element, fit.\<close>

lemma in_memory_fits:
  assumes "in_memory T v"
  shows "fits T (max 1 (2 * Capacity v))"
proof -
  from assms have s: "0 < sizeof_T T" "sizeof_T T \<le> PTRDIFF_MAX"
    and c: "Capacity v * sizeof_T T \<le> PTRDIFF_MAX"
    by (simp_all add: in_memory_def)
  have twice: "2 * PTRDIFF_MAX \<le> SIZE_MAX" and once: "PTRDIFF_MAX \<le> SIZE_MAX"
    by (simp_all add: PTRDIFF_MAX_def SIZE_MAX_def)
  show ?thesis
  proof (cases "Capacity v = 0")
    case True
    with s once show ?thesis
      by (simp add: fits_def)
  next
    case False
    then have "max 1 (2 * Capacity v) * sizeof_T T = 2 * (Capacity v * sizeof_T T)"
      by (simp add: max_def)
    also have "\<dots> \<le> 2 * PTRDIFF_MAX"
      using c by simp
    finally show ?thesis
      using s twice by (simp add: fits_def)
  qed
qed

lemma Reserve_grows:
  assumes "wf v" and "Capacity v < n" and "fits T n" and "\<not> alloc_throws T n"
    and "\<forall>y\<in>set (elems v). \<not> relocation_throws T y"
  shows "Reserve T v n = Returns () (mk (elems v) n) (policy_trace T (elems v))"
proof -
  have "Reserve T (mk (elems v) (Capacity v)) n
      = Returns () (mk (elems v) n) (policy_trace T (elems v))"
    unfolding policy_trace_eq
    using wf_bounds(1) [OF assms(1)] assms(2,4,5,3) by (intro Reserve_ok)
  then show ?thesis
    using wf_is_mk [OF assms(1)] by simp
qed

lemma PushBack_body_grows:
  assumes "wf v" and "in_memory T v" and "Capacity v = Size v"
    and "\<not> alloc_throws T (max 1 (2 * Capacity v))"
    and "init_ok (elems v) c" and "\<not> init_throws T c (init_value (elems v) c)"
    and "\<forall>y\<in>set (after_elems T c (elems v)). \<not> relocation_throws T y"
  shows "PushBack_body T c v
         = Returns () (mk (after_elems T c (elems v) @ [init_value (elems v) c])
                         (max 1 (2 * Capacity v)))
             (init_event c (init_value (elems v) c) # policy_trace T (after_elems T c (elems v)))"
proof -
  have "PushBack_body T c (mk (elems v) (length (elems v)))
      = Returns () (mk (after_elems T c (elems v) @ [init_value (elems v) c])
                      (max 1 (2 * Capacity v)))
          (init_event c (init_value (elems v) c) # policy_trace T (after_elems T c (elems v)))"
    unfolding policy_trace_eq
    using full_vector(2) [OF assms(1,3)] in_memory_fits [OF assms(2)] assms(4,5,6,7)
    by (intro PushBack_body_grow_ok)
  then show ?thesis
    using full_vector(1) [OF assms(1,3)] by simp
qed

lemma size_t_pred_Suc: "n \<le> SIZE_MAX \<Longrightarrow> size_t_pred (Suc n) = n"
proof -
  assume n: "n \<le> SIZE_MAX"
  have "Suc n + SIZE_MAX = n + 1 * (SIZE_MAX + 1)"
    by simp
  then have "(Suc n + SIZE_MAX) mod (SIZE_MAX + 1) = n mod (SIZE_MAX + 1)"
    by (simp only: mod_mult_self1)
  also have "\<dots> = n"
    using n by simp
  finally show ?thesis
    by (simp add: size_t_pred_def)
qed

lemma EmplaceBack_after:
  assumes "PushBack_body T c v = Returns () (mk (xs @ [x]) cap) es"
    and "length xs < cap" and "length xs \<le> SIZE_MAX"
  shows "EmplaceBack T v c = Returns (length xs) (mk (xs @ [x]) cap) es"
proof -
  have "RawMemory_at (m_data (mk (xs @ [x]) cap)) (size_t_pred (m_size (mk (xs @ [x]) cap)))
      = Inr (length xs)"
    using assms(2,3) by (simp add: size_t_pred_Suc RawMemory_at_def)
  then show ?thesis
    by (simp add: EmplaceBack_def assms(1) seq_simps emits_simps)
qed

lemma EmplaceBack_grows:
  assumes "wf v" and "in_memory T v" and "Capacity v = Size v"
    and "\<not> alloc_throws T (max 1 (2 * Capacity v))"
    and "init_ok (elems v) c" and "\<not> init_throws T c (init_value (elems v) c)"
    and "\<forall>y\<in>set (after_elems T c (elems v)). \<not> relocation_throws T y"
  shows "EmplaceBack T v c
         = Returns (Size v) (mk (after_elems T c (elems v) @ [init_value (elems v) c])
                               (max 1 (2 * Capacity v)))
             (init_event c (init_value (elems v) c) # policy_trace T (after_elems T c (elems v)))"
proof -
  have len: "length (elems v) = Size v" "length (elems v) = Capacity v"
    using assms(3) wf_bounds(3) [OF assms(1)] by (simp_all add: Size_def)
  have "length (after_elems T c (elems v)) < max 1 (2 * Capacity v)"
    and "length (after_elems T c (elems v)) \<le> SIZE_MAX"
    using len wf_bounds(2) [OF assms(1)] by (auto simp: max_def)
  from EmplaceBack_after [OF PushBack_body_grows [OF assms] this]
  show ?thesis
    by (simp add: len)
qed

lemma Insert_body_grows:
  assumes "wf v" and "in_memory T v" and "Capacity v = Size v" and "pos \<le> Size v"
    and "\<not> alloc_throws T (max 1 (2 * Capacity v))"
    and "init_ok (elems v) c" and "\<not> init_throws T c (init_value (elems v) c)"
    and "\<forall>y\<in>set (after_elems T c (elems v)). \<not> relocation_throws T y"
  shows "Insert_body T c v pos
         = Returns pos
             (mk (take pos (after_elems T c (elems v)) @ init_value (elems v) c
                    # drop pos (after_elems T c (elems v))) (max 1 (2 * Capacity v)))
             (init_event c (init_value (elems v) c) # policy_trace T (after_elems T c (elems v)))"
proof -
  let ?xs = "after_elems T c (elems v)"
  let ?as = "take pos ?xs" and ?bs = "drop pos ?xs"
  have pos: "length ?as = pos"
    using assms(4) wf_bounds(3) [OF assms(1)] by (simp add: Size_def)
  have split: "?xs = ?as @ ?bs"
    by simp
  have no: "\<forall>y\<in>set (?as @ ?bs). \<not> relocation_throws T y"
    using assms(8) by simp
  have "Insert_body T c (mk (elems v) (length (elems v))) (length ?as)
      = Returns (length ?as) (mk (?as @ init_value (elems v) c # ?bs) (max 1 (2 * Capacity v)))
          (init_event c (init_value (elems v) c) # map (relocation_event T) (?as @ ?bs)
             @ map (\<lambda>y. Dtor (left_behind T y)) (?as @ ?bs))"
    using full_vector(2) [OF assms(1,3)] in_memory_fits [OF assms(2)] assms(5,6,7) split no
    by (rule Insert_body_realloc_ok)
  then show ?thesis
    using full_vector(1) [OF assms(1,3)] pos by (simp add: policy_trace_eq)
qed

lemma Emplace_grows:
  assumes "wf v" and "in_memory T v" and "Capacity v = Size v" and "pos \<le> Size v"
    and "\<not> alloc_throws T (max 1 (2 * Capacity v))"
    and "init_ok (elems v) c" and "\<not> init_throws T c (init_value (elems v) c)"
    and "\<forall>y\<in>set (after_elems T c (elems v)). \<not> relocation_throws T y"
  shows "Emplace T v pos c
         = Returns pos
             (mk (take pos (after_elems T c (elems v)) @ init_value (elems v) c
                    # drop pos (after_elems T c (elems v))) (max 1 (2 * Capacity v)))
             (init_event c (init_value (elems v) c) # policy_trace T (after_elems T c (elems v)))"
proof -
  let ?xs = "after_elems T c (elems v)"
  let ?as = "take pos ?xs" and ?bs = "drop pos ?xs"
  have pos: "length ?as = pos"
    using assms(4) wf_bounds(3) [OF assms(1)] by (simp add: Size_def)
  have split: "?xs = ?as @ ?bs"
    by simp
  have no: "\<forall>y\<in>set (?as @ ?bs). \<not> relocation_throws T y"
    using assms(8) by simp
  have "Emplace T (mk (elems v) (length (elems v))) (length ?as) c
      = Returns (length ?as) (mk (?as @ init_value (elems v) c # ?bs) (max 1 (2 * Capacity v)))
          (init_event c (init_value (elems v) c) # map (relocation_event T) (?as @ ?bs)
             @ map (\<lambda>y. Dtor (left_behind T y)) (?as @ ?bs))"
    using full_vector(2) [OF assms(1,3)] in_memory_fits [OF assms(2)] assms(5,6,7) split no
    by (rule Emplace_realloc_ok)
  then show ?thesis
    using full_vector(1) [OF assms(1,3)] pos by (simp add: policy_trace_eq)
qed

text \<open>
  C3.  In every path that reallocates, the existing elements are relocated as the policy
  says: by move construction exactly when T's move constructor cannot throw or T is not
  copy-constructible, by copy construction otherwise (\<open>policy_trace\<close>).  For a vector
  that satisfies the invariant, when the allocation, the construction of the new element
  and the relocations do not throw, \<open>Reserve\<close> above the capacity (for a request whose
  byte count is a \<^verbatim>\<open>size_t\<close>) and, on a full vector, both \<open>PushBack\<close>s, \<open>EmplaceBack\<close>,
  both \<open>Insert\<close>s and \<open>Emplace\<close> return with the constructor call of the new element
  followed by exactly that relocation.  The argument of \<open>PushBack(T&&)\<close>, \<open>Insert(T&&)\<close>,
  \<open>EmplaceBack\<close> and \<open>Emplace\<close> may be an element of the vector: the new element is built
  first, so the elements relocated are those left by that constructor call
  (\<open>after_elems\<close>).
\<close>

theorem relocation_policy:
  assumes "wf v"
  shows "(Capacity v < n \<and> fits T n \<and> \<not> alloc_throws T n \<and>
            (\<forall>y\<in>set (elems v). \<not> relocation_throws T y) \<longrightarrow>
            Reserve T v n = Returns () (mk (elems v) n) (policy_trace T (elems v))) \<and>
         (Capacity v = Size v \<and> in_memory T v \<and> \<not> alloc_throws T (max 1 (2 * Capacity v)) \<longrightarrow>
            (\<not> copy_ctor_throws T x \<and> (\<forall>y\<in>set (elems v). \<not> relocation_throws T y) \<longrightarrow>
               PushBack T v x
                 = Returns () (mk (elems v @ [x]) (max 1 (2 * Capacity v)))
                     (CopyCtor x # policy_trace T (elems v))) \<and>
            (pos \<le> Size v \<and> \<not> copy_ctor_throws T x \<and>
               (\<forall>y\<in>set (elems v). \<not> relocation_throws T y) \<longrightarrow>
               Insert T v pos x
                 = Returns pos
                     (mk (take pos (elems v) @ x # drop pos (elems v)) (max 1 (2 * Capacity v)))
                     (CopyCtor x # policy_trace T (elems v))) \<and>
            (arg_ok (elems v) a \<and> \<not> move_ctor_throws T (arg_of (elems v) a) \<and>
               (\<forall>y\<in>set (after_elems T (Moving a) (elems v)). \<not> relocation_throws T y) \<longrightarrow>
               PushBack_rvalue T v a
                 = Returns ()
                     (mk (after_elems T (Moving a) (elems v) @ [arg_of (elems v) a])
                        (max 1 (2 * Capacity v)))
                     (MoveCtor (arg_of (elems v) a)
                        # policy_trace T (after_elems T (Moving a) (elems v))) \<and>
               (pos \<le> Size v \<longrightarrow>
                  Insert_rvalue T v pos a
                    = Returns pos
                        (mk (take pos (after_elems T (Moving a) (elems v)) @ arg_of (elems v) a
                               # drop pos (after_elems T (Moving a) (elems v)))
                           (max 1 (2 * Capacity v)))
                        (MoveCtor (arg_of (elems v) a)
                           # policy_trace T (after_elems T (Moving a) (elems v))))) \<and>
            (init_ok (elems v) c \<and> \<not> init_throws T c (init_value (elems v) c) \<and>
               (\<forall>y\<in>set (after_elems T c (elems v)). \<not> relocation_throws T y) \<longrightarrow>
               EmplaceBack T v c
                 = Returns (Size v)
                     (mk (after_elems T c (elems v) @ [init_value (elems v) c])
                        (max 1 (2 * Capacity v)))
                     (init_event c (init_value (elems v) c)
                        # policy_trace T (after_elems T c (elems v))) \<and>
               (pos \<le> Size v \<longrightarrow>
                  Emplace T v pos c
                    = Returns pos
                        (mk (take pos (after_elems T c (elems v)) @ init_value (elems v) c
                               # drop pos (after_elems T c (elems v)))
                           (max 1 (2 * Capacity v)))
                        (init_event c (init_value (elems v) c)
                           # policy_trace T (after_elems T c (elems v))))))"
proof (intro conjI impI; (elim conjE)?)
  assume "Capacity v < n" and "fits T n" and "\<not> alloc_throws T n"
    and "\<forall>y\<in>set (elems v). \<not> relocation_throws T y"
  then show "Reserve T v n = Returns () (mk (elems v) n) (policy_trace T (elems v))"
    using assms by (intro Reserve_grows)
next
  assume full: "Capacity v = Size v" and mem: "in_memory T v"
    and alloc: "\<not> alloc_throws T (max 1 (2 * Capacity v))"
  {
    assume "\<not> copy_ctor_throws T x" and "\<forall>y\<in>set (elems v). \<not> relocation_throws T y"
    then show "PushBack T v x = Returns () (mk (elems v @ [x]) (max 1 (2 * Capacity v)))
        (CopyCtor x # policy_trace T (elems v))"
      using PushBack_body_grows [OF assms mem full alloc, of "Copying (Outside x)"]
      by (simp add: PushBack_def)
  next
    assume "pos \<le> Size v" and "\<not> copy_ctor_throws T x"
      and "\<forall>y\<in>set (elems v). \<not> relocation_throws T y"
    then show "Insert T v pos x = Returns pos
        (mk (take pos (elems v) @ x # drop pos (elems v)) (max 1 (2 * Capacity v)))
        (CopyCtor x # policy_trace T (elems v))"
      using Insert_body_grows [OF assms mem full _ alloc, of pos "Copying (Outside x)"]
      by (simp add: Insert_def)
  next
    assume a: "arg_ok (elems v) a" "\<not> move_ctor_throws T (arg_of (elems v) a)"
      "\<forall>y\<in>set (after_elems T (Moving a) (elems v)). \<not> relocation_throws T y"
    then show "PushBack_rvalue T v a
        = Returns () (mk (after_elems T (Moving a) (elems v) @ [arg_of (elems v) a])
              (max 1 (2 * Capacity v)))
            (MoveCtor (arg_of (elems v) a) # policy_trace T (after_elems T (Moving a) (elems v)))"
      using PushBack_body_grows [OF assms mem full alloc, of "Moving a"]
      by (simp add: PushBack_rvalue_def)
    assume "pos \<le> Size v"
    with a show "Insert_rvalue T v pos a
        = Returns pos
            (mk (take pos (after_elems T (Moving a) (elems v)) @ arg_of (elems v) a
                   # drop pos (after_elems T (Moving a) (elems v))) (max 1 (2 * Capacity v)))
            (MoveCtor (arg_of (elems v) a) # policy_trace T (after_elems T (Moving a) (elems v)))"
      using Insert_body_grows [OF assms mem full _ alloc, of pos "Moving a"]
      by (simp add: Insert_rvalue_def)
  next
    assume c: "init_ok (elems v) c" "\<not> init_throws T c (init_value (elems v) c)"
      "\<forall>y\<in>set (after_elems T c (elems v)). \<not> relocation_throws T y"
    from EmplaceBack_grows [OF assms mem full alloc this]
    show "EmplaceBack T v c
        = Returns (Size v) (mk (after_elems T c (elems v) @ [init_value (elems v) c])
              (max 1 (2 * Capacity v)))
            (init_event c (init_value (elems v) c) # policy_trace T (after_elems T c (elems v)))" .
    assume "pos \<le> Size v"
    from Emplace_grows [OF assms mem full this alloc c]
    show "Emplace T v pos c
        = Returns pos
            (mk (take pos (after_elems T c (elems v)) @ init_value (elems v) c
                   # drop pos (after_elems T c (elems v))) (max 1 (2 * Capacity v)))
            (init_event c (init_value (elems v) c) # policy_trace T (after_elems T c (elems v)))" .
  }
qed

theorem relocation_policy_witness:
  "wf (mk [1, 2 :: int] 2) \<and> in_memory (plain 0) (mk [1, 2 :: int] 2) \<and>
   in_memory (fragile 0 99) (mk [1, 2 :: int] 2) \<and>
   fits (plain (0 :: int)) 4 \<and> fits (fragile (0 :: int) 99) 4 \<and>
   Reserve (plain 0) (mk [1, 2 :: int] 2) 4
     = Returns () (mk [1, 2] 4) [MoveCtor 1, MoveCtor 2, Dtor 1, Dtor 2] \<and>
   Reserve (fragile 0 99) (mk [1, 2 :: int] 2) 4
     = Returns () (mk [1, 2] 4) [CopyCtor 1, CopyCtor 2, Dtor 1, Dtor 2] \<and>
   PushBack (fragile 0 99) (mk [1, 2 :: int] 2) 3
     = Returns () (mk [1, 2, 3] 4) [CopyCtor 3, CopyCtor 1, CopyCtor 2, Dtor 1, Dtor 2] \<and>
   PushBack_rvalue (fragile 0 99) (mk [1, 2 :: int] 2) (Element 0)
     = Returns () (mk [0, 2, 1] 4) [MoveCtor 1, CopyCtor 0, CopyCtor 2, Dtor 0, Dtor 2] \<and>
   EmplaceBack (plain 0) (mk [1, 2 :: int] 2) (Building 3)
     = Returns 2 (mk [1, 2, 3] 4) [ArgsCtor 3, MoveCtor 1, MoveCtor 2, Dtor 1, Dtor 2] \<and>
   Insert (fragile 0 99) (mk [1, 2 :: int] 2) 1 7
     = Returns 1 (mk [1, 7, 2] 4) [CopyCtor 7, CopyCtor 1, CopyCtor 2, Dtor 1, Dtor 2] \<and>
   Insert_rvalue (plain 0) (mk [1, 2 :: int] 2) 1 (Outside 7)
     = Returns 1 (mk [1, 7, 2] 4) [MoveCtor 7, MoveCtor 1, MoveCtor 2, Dtor 1, Dtor 2] \<and>
   Emplace (plain 0) (mk [1, 2 :: int] 2) 1 (Building 7)
     = Returns 1 (mk [1, 7, 2] 4) [ArgsCtor 7, MoveCtor 1, MoveCtor 2, Dtor 1, Dtor 2]"
proof -
  let ?v = "mk [1, 2 :: int] 2"
  have w: "wf ?v"
    by (rule wf_mk) (simp_all add: SIZE_MAX_def)
  have m: "in_memory (plain 0) ?v" "in_memory (fragile 0 99) ?v"
    by (simp_all add: in_memory_def plain_def fragile_def PTRDIFF_MAX_def)
  have f: "fits (plain (0 :: int)) 4" "fits (fragile (0 :: int) 99) 4"
    by (simp_all add: fits_def plain_def fragile_def SIZE_MAX_def)
  have full: "Capacity ?v = Size ?v" "Capacity ?v < 4" "max 1 (2 * Capacity ?v) = 4"
    "(1 :: nat) \<le> Size ?v"
    by (simp_all add: Size_def)
  have a: "\<not> alloc_throws (plain (0 :: int)) k" "\<not> alloc_throws (fragile (0 :: int) 99) k" for k
    by (simp_all add: plain_def fragile_def)
  have p: "\<forall>y\<in>set (elems ?v). \<not> relocation_throws (plain 0) y"
    "\<forall>y\<in>set (after_elems (plain 0) (Building 3) (elems ?v)). \<not> relocation_throws (plain 0) y"
    "\<forall>y\<in>set (after_elems (plain 0) (Building 7) (elems ?v)). \<not> relocation_throws (plain 0) y"
    "\<forall>y\<in>set (after_elems (plain 0) (Moving (Outside 7)) (elems ?v)).
       \<not> relocation_throws (plain 0) y"
    by (simp_all add: relocation_throws_def plain_def)
  have q: "\<forall>y\<in>set (elems ?v). \<not> relocation_throws (fragile 0 99) y"
    "\<forall>y\<in>set (after_elems (fragile 0 99) (Moving (Element 0)) (elems ?v)).
       \<not> relocation_throws (fragile 0 99) y"
    by (simp_all add: relocation_throws_def fragile_def)
  have c: "\<not> copy_ctor_throws (fragile (0 :: int) 99) 3" "\<not> copy_ctor_throws (fragile (0 :: int) 99) 7"
    "\<not> move_ctor_throws (fragile (0 :: int) 99) (arg_of (elems ?v) (Element 0))"
    "\<not> move_ctor_throws (plain (0 :: int)) (arg_of (elems ?v) (Outside 7))"
    "\<not> init_throws (plain (0 :: int)) (Building 3) (init_value (elems ?v) (Building 3))"
    "\<not> init_throws (plain (0 :: int)) (Building 7) (init_value (elems ?v) (Building 7))"
    "arg_ok (elems ?v) (Element 0)"
    by (simp_all add: plain_def fragile_def)
  have tr: "policy_trace (plain 0) [1, 2 :: int] = [MoveCtor 1, MoveCtor 2, Dtor 1, Dtor 2]"
    "policy_trace (fragile 0 99) [1, 2 :: int] = [CopyCtor 1, CopyCtor 2, Dtor 1, Dtor 2]"
    "policy_trace (fragile 0 99) [0, 2 :: int] = [CopyCtor 0, CopyCtor 2, Dtor 0, Dtor 2]"
    by (simp_all add: policy_trace_def plain_def fragile_def)
  have h: "moved_from (fragile (0 :: int) 99) y = 0" for y
    by (simp add: fragile_def)
  show ?thesis
    using w m f full a p q c
      relocation_policy [OF w, where n = 4 and T = "plain 0" and x = 3 and pos = 1
        and a = "Outside 7" and c = "Building 3"]
      relocation_policy [OF w, where n = 4 and T = "plain 0" and x = 7 and pos = 1
        and a = "Outside 7" and c = "Building 7"]
      relocation_policy [OF w, where n = 4 and T = "fragile 0 99" and x = 3 and pos = 1
        and a = "Element 0" and c = "Building 3"]
      relocation_policy [OF w, where n = 4 and T = "fragile 0 99" and x = 7 and pos = 1
        and a = "Element 0" and c = "Building 7"]
    by (simp add: tr h Size_def)
qed

section \<open>Growth of the capacity\<close>

lemma five_pushes:
  "capacities_while_pushing (plain 0) Vector_default [1, 2, 3, 4, 5 :: int] = [0, 1, 2, 4, 4, 8]"
proof -
  let ?T = "plain (0 :: int)"
  have c: "\<not> init_throws ?T (Copying (Outside x)) (init_value xs (Copying (Outside x)))" for x xs
    by (simp add: plain_def)
  have r: "\<forall>y\<in>set (after_elems ?T (Copying (Outside x)) xs). \<not> relocation_throws ?T y" for x xs
    by (simp add: relocation_throws_def plain_def)
  have a: "\<not> alloc_throws ?T n" for n
    by (simp add: plain_def)
  have f: "fits ?T 1" "fits ?T 2" "fits ?T 4" "fits ?T 8"
    by (simp_all add: fits_def plain_def SIZE_MAX_def)
  have ok: "init_ok xs (Copying (Outside x))" for x and xs :: "int list"
    by simp
  have p0: "PushBack ?T Vector_default 1 = Returns () (mk [1] 1) [CopyCtor 1]"
    using PushBack_body_grow_ok [OF _ f(1) a ok c r, of "[]" 1]
    by (simp add: PushBack_def Vector_default_def mk_def)
  have l1: "length [1 :: int] = 1" and l2: "length [1, 2 :: int] = 2"
    and l4: "length [1, 2, 3, 4 :: int] = 4"
    by simp_all
  have p1: "\<exists>es. PushBack ?T (mk [1] 1) 2 = Returns () (mk [1, 2] 2) es"
    using PushBack_body_grow_ok [OF _ f(2) a ok c r, of "[1]" 2]
    unfolding l1 by (simp add: PushBack_def)
  have p2: "\<exists>es. PushBack ?T (mk [1, 2] 2) 3 = Returns () (mk [1, 2, 3] 4) es"
    using PushBack_body_grow_ok [OF _ f(3) a ok c r, of "[1, 2]" 3]
    unfolding l2 by (simp add: PushBack_def)
  have p3: "\<exists>es. PushBack ?T (mk [1, 2, 3] 4) 4 = Returns () (mk [1, 2, 3, 4] 4) es"
    using PushBack_body_place_ok [OF _ ok c, of "[1, 2, 3]" 4 4]
    by (simp add: PushBack_def)
  have p4: "\<exists>es. PushBack ?T (mk [1, 2, 3, 4] 4) 5 = Returns () (mk [1, 2, 3, 4, 5] 8) es"
    using PushBack_body_grow_ok [OF _ f(4) a ok c r, of "[1, 2, 3, 4]" 5]
    unfolding l4 by (simp add: PushBack_def)
  from p1 p2 p3 p4 obtain es1 es2 es3 es4 where
    "PushBack ?T (mk [1] 1) 2 = Returns () (mk [1, 2] 2) es1"
    "PushBack ?T (mk [1, 2] 2) 3 = Returns () (mk [1, 2, 3] 4) es2"
    "PushBack ?T (mk [1, 2, 3] 4) 4 = Returns () (mk [1, 2, 3, 4] 4) es3"
    "PushBack ?T (mk [1, 2, 3, 4] 4) 5 = Returns () (mk [1, 2, 3, 4, 5] 8) es4"
    by blast
  with p0 show ?thesis
    by (simp add: Vector_default_def Capacity_def)
qed

text \<open>
  C7.  On a vector that satisfies the invariant and is full (size = capacity), when the
  allocation, the construction of the new element and the relocations do not throw,
  \<open>PushBack\<close> (either overload) and \<open>EmplaceBack\<close> return a vector of capacity
  \<open>max 1 (2 * capacity)\<close>.  The vector is one that exists (\<open>in_memory\<close>: its block has at
  most \<^verbatim>\<open>PTRDIFF_MAX\<close> bytes), the argument of \<open>PushBack(T&&)\<close> and \<open>EmplaceBack\<close> is an
  object outside the vector or one of its elements, and the elements relocated are those
  left by the constructor call of the new element.  Pushing 1, 2, 3, 4, 5 into an empty
  vector of \<^verbatim>\<open>int\<close> shows the capacities 0, 1, 2, 4, 4, 8.
\<close>

theorem capacity_doubles:
  "(wf v \<and> in_memory T v \<and> Capacity v = Size v \<and>
      \<not> alloc_throws T (max 1 (2 * Capacity v)) \<longrightarrow>
      (\<not> copy_ctor_throws T x \<and> (\<forall>y\<in>set (elems v). \<not> relocation_throws T y) \<longrightarrow>
         (\<exists>v' es. PushBack T v x = Returns () v' es \<and> Capacity v' = max 1 (2 * Capacity v))) \<and>
      (arg_ok (elems v) a \<and> \<not> move_ctor_throws T (arg_of (elems v) a) \<and>
         (\<forall>y\<in>set (after_elems T (Moving a) (elems v)). \<not> relocation_throws T y) \<longrightarrow>
         (\<exists>v' es. PushBack_rvalue T v a = Returns () v' es \<and>
            Capacity v' = max 1 (2 * Capacity v))) \<and>
      (init_ok (elems v) c \<and> \<not> init_throws T c (init_value (elems v) c) \<and>
         (\<forall>y\<in>set (after_elems T c (elems v)). \<not> relocation_throws T y) \<longrightarrow>
         (\<exists>v' es r. EmplaceBack T v c = Returns r v' es \<and>
            Capacity v' = max 1 (2 * Capacity v)))) \<and>
   capacities_while_pushing (plain 0) Vector_default [1, 2, 3, 4, 5 :: int] = [0, 1, 2, 4, 4, 8]"
proof (intro conjI impI; (elim conjE)?)
  assume v: "wf v" "in_memory T v" "Capacity v = Size v"
    "\<not> alloc_throws T (max 1 (2 * Capacity v))"
  have len: "length (ys @ [y]) \<le> max 1 (2 * Capacity v)" if "length ys = length (elems v)"
    for ys :: "'a list" and y
    using that v(3) wf_bounds(3) [OF v(1)] by (auto simp: Size_def max_def)
  {
    assume "\<not> copy_ctor_throws T x" and "\<forall>y\<in>set (elems v). \<not> relocation_throws T y"
    then have "PushBack T v x = Returns () (mk (elems v @ [x]) (max 1 (2 * Capacity v)))
        (CopyCtor x # policy_trace T (elems v))"
      using PushBack_body_grows [OF v, of "Copying (Outside x)"] by (simp add: PushBack_def)
    with len [of "elems v" x]
    show "\<exists>v' es. PushBack T v x = Returns () v' es \<and> Capacity v' = max 1 (2 * Capacity v)"
      by simp
  next
    assume "arg_ok (elems v) a" and "\<not> move_ctor_throws T (arg_of (elems v) a)"
      and "\<forall>y\<in>set (after_elems T (Moving a) (elems v)). \<not> relocation_throws T y"
    then have "PushBack_rvalue T v a
        = Returns () (mk (after_elems T (Moving a) (elems v) @ [arg_of (elems v) a])
              (max 1 (2 * Capacity v)))
            (MoveCtor (arg_of (elems v) a) # policy_trace T (after_elems T (Moving a) (elems v)))"
      using PushBack_body_grows [OF v, of "Moving a"] by (simp add: PushBack_rvalue_def)
    with len [of "after_elems T (Moving a) (elems v)" "arg_of (elems v) a"]
    show "\<exists>v' es. PushBack_rvalue T v a = Returns () v' es \<and>
        Capacity v' = max 1 (2 * Capacity v)"
      by simp
  next
    assume "init_ok (elems v) c" and "\<not> init_throws T c (init_value (elems v) c)"
      and "\<forall>y\<in>set (after_elems T c (elems v)). \<not> relocation_throws T y"
    from EmplaceBack_grows [OF v this] len [of "after_elems T c (elems v)" "init_value (elems v) c"]
    show "\<exists>v' es r. EmplaceBack T v c = Returns r v' es \<and>
        Capacity v' = max 1 (2 * Capacity v)"
      by simp
  }
next
  show "capacities_while_pushing (plain 0) Vector_default [1, 2, 3, 4, 5 :: int]
      = [0, 1, 2, 4, 4, 8]"
    by (rule five_pushes)
qed

theorem capacity_doubles_witness:
  "wf (mk [1, 2 :: int] 2) \<and> in_memory (plain 0) (mk [1, 2 :: int] 2) \<and>
   wf (mk ([] :: int list) 0) \<and> in_memory (plain 0) (mk ([] :: int list) 0) \<and>
   (\<exists>v' es. PushBack (plain 0) (mk [1, 2 :: int] 2) 3 = Returns () v' es \<and> Capacity v' = 4) \<and>
   (\<exists>v' es. PushBack_rvalue (plain 0) (mk [1, 2 :: int] 2) (Outside 3) = Returns () v' es \<and>
      Capacity v' = 4) \<and>
   (\<exists>v' es. PushBack_rvalue (plain 0) (mk [1, 2 :: int] 2) (Element 1) = Returns () v' es \<and>
      Capacity v' = 4) \<and>
   (\<exists>v' es r. EmplaceBack (plain 0) (mk [1, 2 :: int] 2) (Building 3) = Returns r v' es \<and>
      Capacity v' = 4) \<and>
   (\<exists>v' es. PushBack (plain 0) (mk ([] :: int list) 0) 3 = Returns () v' es \<and> Capacity v' = 1)"
proof -
  have w: "wf (mk [1, 2 :: int] 2)" "wf (mk ([] :: int list) 0)"
    by (rule wf_mk; simp add: SIZE_MAX_def)+
  have m: "in_memory (plain 0) (mk [1, 2 :: int] 2)" "in_memory (plain 0) (mk ([] :: int list) 0)"
    by (simp_all add: in_memory_def plain_def PTRDIFF_MAX_def)
  have t: "\<not> alloc_throws (plain (0 :: int)) k" "\<not> copy_ctor_throws (plain (0 :: int)) y"
    "\<not> move_ctor_throws (plain (0 :: int)) y" "\<not> args_ctor_throws (plain (0 :: int)) y"
    "\<not> relocation_throws (plain (0 :: int)) y" for k y
    by (simp_all add: plain_def relocation_throws_def)
  show ?thesis
    using w m
      capacity_doubles [of "mk [1, 2 :: int] 2" "plain 0" 3 "Outside 3" "Building 3"]
      capacity_doubles [of "mk [1, 2 :: int] 2" "plain 0" 3 "Element 1" "Building 3"]
      capacity_doubles [of "mk ([] :: int list) 0" "plain 0" 3 "Outside 3" "Building 3"]
    by (simp add: t Size_def)
qed

section \<open>Erase\<close>

lemma Erase_wf:
  assumes "wf v" and "pos < Size v"
    and "\<forall>y\<in>set (drop (Suc pos) (elems v)). \<not> move_assign_throws T y"
  shows "Erase T v pos
         = Returns pos (mk (take pos (elems v) @ drop (Suc pos) (elems v)) (Capacity v))
             (map MoveAssign (drop (Suc pos) (elems v))
                @ [Dtor (if Suc pos = Size v then elems v ! pos
                         else moved_from T (last (elems v)))])"
proof -
  let ?xs = "elems v"
  let ?as = "take pos ?xs" and ?a = "?xs ! pos" and ?bs = "drop (Suc pos) ?xs"
  have pos: "pos < length ?xs"
    using assms(2) wf_bounds(3) [OF assms(1)] by (simp add: Size_def)
  then have xs: "?xs = ?as @ ?a # ?bs"
    by (rule id_take_nth_drop)
  have len: "length ?as = pos"
    using pos by simp
  have le: "length (?as @ ?a # ?bs) \<le> Capacity v"
    using wf_bounds(1) [OF assms(1)] xs by simp
  have "Erase T (mk (?as @ ?a # ?bs) (Capacity v)) (length ?as)
      = Returns (length ?as) (mk (?as @ ?bs) (Capacity v))
          (map MoveAssign ?bs @ [Dtor (if ?bs = [] then ?a else moved_from T (last ?bs))])"
    using le assms(3) by (rule Erase_ok)
  moreover have "mk (?as @ ?a # ?bs) (Capacity v) = v"
    using wf_is_mk [OF assms(1)] xs by simp
  moreover have "(?bs = []) = (Suc pos = Size v)"
    using pos wf_bounds(3) [OF assms(1)] by (auto simp: Size_def)
  moreover have "?bs \<noteq> [] \<Longrightarrow> last ?bs = last ?xs"
    by simp
  ultimately show ?thesis
    using len by (simp del: drop_eq_Nil drop_eq_Nil2)
qed

lemma mk_raw_slot: "length ys \<le> i \<Longrightarrow> i < cap \<Longrightarrow> m_data (mk ys cap) ! i = Raw"
  by (simp add: mk_def nth_append)

text \<open>
  C8.  On a vector that satisfies the invariant, \<open>Erase\<close> at a position \<open>pos\<close> below the
  size, when no move assignment of a later element throws, returns \<open>pos\<close> and the vector
  without the element at \<open>pos\<close>: one element fewer in the same capacity, the elements
  before \<open>pos\<close> where they were, every later element one slot lower in the same order,
  each of them moved by one move assignment, and the vacated last slot destroyed (raw
  again).
\<close>

theorem Erase_removes_one:
  assumes "wf v" and "pos < Size v"
    and "\<forall>y\<in>set (drop (Suc pos) (elems v)). \<not> move_assign_throws T y"
  shows "\<exists>v' d. Erase T v pos
             = Returns pos v' (map MoveAssign (drop (Suc pos) (elems v)) @ [Dtor d]) \<and>
           elems v' = take pos (elems v) @ drop (Suc pos) (elems v) \<and>
           Size v' = Size v - 1 \<and> Capacity v' = Capacity v \<and>
           (\<forall>i<pos. Vector_at v' i = Vector_at v i) \<and>
           (\<forall>i. pos \<le> i \<and> i < Size v - 1 \<longrightarrow> Vector_at v' i = Vector_at v (Suc i)) \<and>
           m_data v' ! (Size v - 1) = Raw \<and> wf v'"
proof -
  let ?xs = "elems v"
  let ?ys = "take pos ?xs @ drop (Suc pos) ?xs"
  let ?v' = "mk ?ys (Capacity v)"
  have size: "length ?xs = Size v" and cap: "Size v \<le> Capacity v"
    using wf_bounds [OF assms(1)] by (simp_all add: Size_def)
  have pos: "pos < length ?xs"
    using assms(2) size by simp
  have len: "length ?ys = Size v - 1"
    using pos size by simp
  have le: "length ?ys \<le> Capacity v"
    using len cap by simp
  have v: "v = mk ?xs (Capacity v)"
    using assms(1) by (rule wf_is_mk)
  have at_v: "Vector_at v i = Inr (?xs ! i)" if "i < length ?xs" for i
    using Vector_at_mk [OF that, of "Capacity v"] v by simp
  have lower: "\<forall>i<pos. Vector_at ?v' i = Vector_at v i"
  proof (intro allI impI)
    fix i assume i: "i < pos"
    then have "i < length ?ys"
      using pos by simp
    then have "Vector_at ?v' i = Inr (?ys ! i)"
      by (rule Vector_at_mk)
    also have "?ys ! i = ?xs ! i"
      using i pos by (simp add: nth_append)
    finally show "Vector_at ?v' i = Vector_at v i"
      using at_v [of i] i pos by simp
  qed
  have upper: "\<forall>i. pos \<le> i \<and> i < Size v - 1 \<longrightarrow> Vector_at ?v' i = Vector_at v (Suc i)"
  proof (intro allI impI)
    fix i assume i: "pos \<le> i \<and> i < Size v - 1"
    then have "i < length ?ys"
      using len by simp
    then have "Vector_at ?v' i = Inr (?ys ! i)"
      by (rule Vector_at_mk)
    also have "?ys ! i = ?xs ! Suc i"
      using i pos size by (simp add: nth_append min_absorb2)
    finally have "Vector_at ?v' i = Inr (?xs ! Suc i)" .
    moreover have "Suc i < length ?xs"
      using i size by linarith
    ultimately show "Vector_at ?v' i = Vector_at v (Suc i)"
      using at_v [of "Suc i"] by simp
  qed
  have "length ?ys \<le> Size v - 1" and "Size v - 1 < Capacity v"
    using len cap assms(2) by simp_all
  then have raw: "m_data ?v' ! (Size v - 1) = Raw"
    by (rule mk_raw_slot)
  have wf': "wf ?v'"
    using le wf_bounds(2) [OF assms(1)] by (rule wf_mk)
  have "Size ?v' = Size v - 1" and "Capacity ?v' = Capacity v" and "elems ?v' = ?ys"
    using len le by (simp_all add: Size_def)
  with Erase_wf [OF assms] lower upper raw wf' show ?thesis
    by blast
qed

theorem Erase_removes_one_witness:
  "wf (mk [1, 2, 3, 4 :: int] 8) \<and>
   (\<exists>v'. Erase (plain 0) (mk [1, 2, 3, 4 :: int] 8) 1
            = Returns 1 v' [MoveAssign 3, MoveAssign 4, Dtor 4] \<and>
          elems v' = [1, 3, 4] \<and> Size v' = 3 \<and> Capacity v' = 8 \<and>
          Vector_at v' 0 = Inr 1 \<and> Vector_at v' 1 = Inr 3 \<and> Vector_at v' 2 = Inr 4 \<and>
          m_data v' ! 3 = Raw \<and> wf v')"
proof -
  let ?v = "mk [1, 2, 3, 4 :: int] 8"
  have w: "wf ?v"
    by (rule wf_mk) (simp_all add: SIZE_MAX_def)
  have s: "(1 :: nat) < Size ?v"
    by (simp add: Size_def)
  have m: "\<forall>y\<in>set (drop (Suc 1) (elems ?v)). \<not> move_assign_throws (plain 0) y"
    by (simp add: plain_def)
  from Erase_removes_one [OF w s m] obtain v' d where
    run: "Erase (plain 0) ?v 1
        = Returns 1 v' (map MoveAssign (drop (Suc 1) (elems ?v)) @ [Dtor d])"
    and rest: "elems v' = take 1 (elems ?v) @ drop (Suc 1) (elems ?v)"
      "Size v' = Size ?v - 1" "Capacity v' = Capacity ?v"
      "\<forall>i<1. Vector_at v' i = Vector_at ?v i"
      "\<forall>i. 1 \<le> i \<and> i < Size ?v - 1 \<longrightarrow> Vector_at v' i = Vector_at ?v (Suc i)"
      "m_data v' ! (Size ?v - 1) = Raw" "wf v'"
    by blast
  have "Erase (plain 0) ?v 1 = Returns 1 (mk [1, 3, 4] 8) [MoveAssign 3, MoveAssign 4, Dtor 4]"
    using Erase_wf [OF w s m] by (simp add: plain_def Size_def)
  with run have v': "v' = mk [1, 3, 4] 8"
    and run': "Erase (plain 0) ?v 1 = Returns 1 v' [MoveAssign 3, MoveAssign 4, Dtor 4]"
    by simp_all
  have "elems v' = [1, 3, 4]" and "Size v' = 3" and "Capacity v' = 8"
    and "Vector_at v' 0 = Inr 1" and "Vector_at v' 1 = Inr 3" and "Vector_at v' 2 = Inr 4"
    and "m_data v' ! 3 = Raw"
    unfolding v' by (simp_all add: Size_def Vector_at_mk) (simp add: mk_def)
  with w run' rest(7) show ?thesis
    by blast
qed

text \<open>
  C10 (as stated, refuted).  \<open>Erase\<close> at \<open>end()\<close> is not a \<open>PopBack\<close>: on the two
  elements 1, 2 it hands \<^verbatim>\<open>std::move\<close> the range from \<^verbatim>\<open>end() + 1\<close> to \<^verbatim>\<open>end()\<close>, while
  \<open>PopBack\<close> returns the vector without its last element.
\<close>

theorem Erase_at_end_counterexample:
  "Erase (plain 0) (mk [1, 2 :: int] 2) (cend (mk [1, 2 :: int] 2)) = Fault BadRange \<and>
   PopBack (mk [1, 2 :: int] 2) = Returns () (mk [1] 2) [Dtor 2]"
proof -
  have "PopBack (mk ([1] @ [2 :: int]) 2) = Returns () (mk [1] 2) [Dtor 2]"
    by (rule PopBack_ok) simp
  then show ?thesis
    by (simp add: Erase_past_the_end)
qed

text \<open>
  C10 (amended).  \<open>Erase\<close> makes no assertion on \<open>pos\<close>.  On a non-empty vector that
  satisfies the invariant, it is \<open>Erase\<close> at the last element, \<open>end() - 1\<close>, that has the
  effect of \<open>PopBack\<close>: the last element is destroyed, the size drops by one and all other
  elements stay.  \<open>Erase\<close> at \<open>end()\<close> calls \<^verbatim>\<open>std::move\<close> on an inverted range, which
  the algorithm does not define.
\<close>

theorem Erase_last_is_PopBack:
  assumes "wf v" and "0 < Size v"
  shows "Erase T v (cend v) = Fault BadRange \<and>
         PopBack v = Returns () (mk (butlast (elems v)) (Capacity v)) [Dtor (last (elems v))] \<and>
         Erase T v (cend v - 1)
           = Returns (cend v - 1) (mk (butlast (elems v)) (Capacity v)) [Dtor (last (elems v))]"
proof (intro conjI)
  let ?xs = "elems v"
  have size: "length ?xs = Size v" and cap: "length ?xs \<le> Capacity v"
    using wf_bounds [OF assms(1)] by (simp_all add: Size_def)
  then have ne: "?xs \<noteq> []"
    using assms(2) by auto
  then have xs: "butlast ?xs @ [last ?xs] = ?xs"
    by simp
  show "Erase T v (cend v) = Fault BadRange"
    by (rule Erase_past_the_end)
  have "length (butlast ?xs) < Capacity v"
    using cap ne by (cases ?xs rule: rev_cases) simp_all
  then have "PopBack (mk (butlast ?xs @ [last ?xs]) (Capacity v))
      = Returns () (mk (butlast ?xs) (Capacity v)) [Dtor (last ?xs)]"
    by (rule PopBack_ok)
  then show "PopBack v = Returns () (mk (butlast ?xs) (Capacity v)) [Dtor (last ?xs)]"
    using wf_is_mk [OF assms(1)] xs by simp
  have pos: "cend v - 1 < Size v" and suc: "Suc (cend v - 1) = Size v"
    using assms(2) by (simp_all add: cend_def Size_def)
  have "drop (Size v) ?xs = []" and "take (cend v - 1) ?xs = butlast ?xs"
    and "?xs ! (cend v - 1) = last ?xs"
    using size ne by (simp_all add: cend_def Size_def butlast_conv_take last_conv_nth)
  with Erase_wf [OF assms(1) pos, of T] suc
  show "Erase T v (cend v - 1)
      = Returns (cend v - 1) (mk (butlast ?xs) (Capacity v)) [Dtor (last ?xs)]"
    by simp
qed

theorem Erase_last_is_PopBack_witness:
  "wf (mk [1, 2, 3 :: int] 4) \<and> 0 < Size (mk [1, 2, 3 :: int] 4) \<and>
   Erase (plain 0) (mk [1, 2, 3 :: int] 4) 3 = Fault BadRange \<and>
   PopBack (mk [1, 2, 3 :: int] 4) = Returns () (mk [1, 2] 4) [Dtor 3] \<and>
   Erase (plain 0) (mk [1, 2, 3 :: int] 4) 2 = Returns 2 (mk [1, 2] 4) [Dtor 3]"
proof -
  have w: "wf (mk [1, 2, 3 :: int] 4)"
    by (rule wf_mk) (simp_all add: SIZE_MAX_def)
  have s: "0 < Size (mk [1, 2, 3 :: int] 4)"
    by (simp add: Size_def)
  have "cend (mk [1, 2, 3 :: int] 4) = 3" and "cend (mk [1, 2, 3 :: int] 4) - 1 = 2"
    by (simp_all add: cend_def)
  with w s Erase_last_is_PopBack [OF w s, of "plain 0"] show ?thesis
    by simp
qed

section \<open>Moving a vector\<close>

text \<open>
  C4 (as stated, refuted).  Move assignment into a vector that holds 1, 2 from a vector
  that holds 3: the destination receives 3, but the source is left with size 2, not 0.
\<close>

theorem move_assign_source_counterexample:
  "elems (move_assign ((\<lambda>a. Vector_default)(0 := mk [1, 2 :: int] 2, 1 := mk [3] 1)) 0 1 0) = [3] \<and>
   Size (move_assign ((\<lambda>a. Vector_default)(0 := mk [1, 2 :: int] 2, 1 := mk [3] 1)) 0 1 1) = 2"
  by (simp add: move_assign_def Swap_def Size_def elems_def mk_def)

text \<open>
  C4 (amended).  For two distinct vector objects, move construction and move assignment
  both give the destination the state of the source: its size and its elements at the
  same indices.  Move construction leaves the source with size 0 and no storage.  Move
  assignment swaps: it leaves the source with the former state of the destination, so
  with size 0 only if the destination was empty.
\<close>

theorem move_transfers:
  assumes "this \<noteq> other"
  shows "Vector_move s this other this = s other \<and>
         Vector_move s this other other = Vector_default \<and>
         Size (Vector_move s this other other) = 0 \<and>
         move_assign s this other this = s other \<and>
         move_assign s this other other = s this \<and>
         Size (move_assign s this other this) = Size (s other) \<and>
         elems (move_assign s this other this) = elems (s other) \<and>
         Size (move_assign s this other other) = Size (s this)"
  using assms
  by (simp add: Vector_move_def move_assign_def Swap_def Vector_default_def Size_def elems_def
        Let_def)

theorem move_transfers_witness:
  "(0 :: nat) \<noteq> 1 \<and>
   Vector_move ((\<lambda>a. Vector_default)(1 := mk [3, 4 :: int] 2)) 0 1 0 = mk [3, 4] 2 \<and>
   Size (Vector_move ((\<lambda>a. Vector_default)(1 := mk [3, 4 :: int] 2)) 0 1 1) = 0 \<and>
   move_assign ((\<lambda>a. Vector_default)(0 := mk [1 :: int] 1, 1 := mk [3, 4] 2)) 0 1 0 = mk [3, 4] 2 \<and>
   move_assign ((\<lambda>a. Vector_default)(0 := mk [1 :: int] 1, 1 := mk [3, 4] 2)) 0 1 1 = mk [1] 1"
  using move_transfers [of 0 1 "(\<lambda>a. Vector_default)(1 := mk [3, 4 :: int] 2)"]
    move_transfers [of 0 1 "(\<lambda>a. Vector_default)(0 := mk [1 :: int] 1, 1 := mk [3, 4] 2)"]
  by (simp add: Size_def Vector_default_def)

section \<open>Copy assignment\<close>

text \<open>
  C5 (the code departs from the claim).  Copy assignment of the one-element vector 7 to
  a vector that holds 1, 2 in capacity 3 stays in the current storage and runs
  \<^verbatim>\<open>std::ranges::destroy\<close> from slot \<^verbatim>\<open>rhs.size_\<close> up to \<^verbatim>\<open>Capacity()\<close>, not up to
  \<^verbatim>\<open>size_\<close>: after the live element 2 it destroys the raw slot 2.
\<close>

theorem copy_assign_destroys_raw_slot:
  "wf (mk [1, 2 :: int] 3) \<and> wf (mk [7 :: int] 1) \<and>
   copy_assign (plain 0) ((\<lambda>a. Vector_default)(0 := mk [1, 2 :: int] 3, 1 := mk [7] 1)) 0 1
     = Fault DeadAccess"
proof -
  have "wf (mk [1, 2 :: int] 3)" and "wf (mk [7 :: int] 1)"
    by (rule wf_mk; simp add: SIZE_MAX_def)+
  moreover have "copy_assign (plain 0)
      ((\<lambda>a. Vector_default)(0 := mk [1, 2 :: int] 3, 1 := mk [7] 1)) 0 1 = Fault DeadAccess"
    by (simp add: copy_assign_def mk_def plain_def Capacity_def ranges_destroy_def read_obj_def
          seq_simps emits_simps numeral_2_eq_2 numeral_3_eq_3 Let_def)
  ultimately show ?thesis
    by simp
qed

section \<open>The invariant under the public operations\<close>

text \<open>
  C9 (the code departs from the claim).  Copy assignment of an empty vector to a vector
  that holds 1, 2, 3 in capacity 4: both satisfy the invariant, and the assignment runs
  the destructor on the raw slot 3.
\<close>

theorem copy_assign_breaks_invariant:
  "wf (mk [1, 2, 3 :: int] 4) \<and> wf (Vector_default :: int Vector) \<and>
   copy_assign (plain 0) ((\<lambda>a. Vector_default)(0 := mk [1, 2, 3 :: int] 4)) 0 1
     = Fault DeadAccess"
proof -
  have "wf (mk [1, 2, 3 :: int] 4)"
    by (rule wf_mk; simp add: SIZE_MAX_def)
  moreover have "wf (Vector_default :: int Vector)"
    by (simp add: wf_def Vector_default_def)
  moreover have "copy_assign (plain 0)
      ((\<lambda>a. Vector_default)(0 := mk [1, 2, 3 :: int] 4)) 0 1 = Fault DeadAccess"
    by (simp add: copy_assign_def mk_def plain_def Capacity_def ranges_destroy_def read_obj_def
          Vector_default_def seq_simps emits_simps numeral_2_eq_2 numeral_3_eq_3 Let_def
          eval_nat_numeral)
  ultimately show ?thesis
    by simp
qed

section \<open>Exceptions during growth\<close>

lemma EmplaceBack_strong:
  assumes "\<not> (is_nothrow_move_constructible T \<or> \<not> is_copy_constructible T)"
    and "EmplaceBack T v c = Throws e w es"
  shows "w = v \<or> w = husk_left T c v"
  using assms(2) unfolding EmplaceBack_def
proof (cases rule: seq_ThrowsE)
  case (first s)
  with PushBack_body_strong [OF assms(1), of c v e s es] show ?thesis
    by simp
next
  case (rest y s es1 es2)
  then show ?thesis
    by (cases "RawMemory_at (m_data s) (size_t_pred (m_size s))") simp_all
qed

lemma Insert_body_strong:
  assumes "\<not> (is_nothrow_move_constructible T \<or> \<not> is_copy_constructible T)"
    and "Capacity v = Size v" and "Insert_body T c v pos = Throws e w es"
  shows "w = v \<or> w = husk_left T c v"
proof -
  have le: "pos \<le> cend v"
    using assms(3) by (cases "pos \<le> cend v") (simp_all add: Insert_body_def)
  with assms(2,3) have "seq (insert_realloc T c v pos) id
      (\<lambda>v'. Returns pos (v'\<lparr>m_size := m_size v' + 1\<rparr>) []) = Throws e w es"
    by (simp add: Insert_body_def Size_def)
  then show ?thesis
  proof (cases rule: seq_ThrowsE)
    case (first s)
    with insert_realloc_strong [OF assms(1), of c v pos e s es] show ?thesis
      by simp
  next
    case (rest y s es1 es2)
    then show ?thesis by simp
  qed
qed

lemma Emplace_strong:
  assumes "\<not> (is_nothrow_move_constructible T \<or> \<not> is_copy_constructible T)"
    and "Capacity v = Size v" and "Emplace T v pos c = Throws e w es"
  shows "w = v \<or> w = husk_left T c v"
proof -
  have le: "pos \<le> cend v"
    using assms(3) by (cases "pos \<le> cend v") (simp_all add: Emplace_def)
  with assms(2,3) have "seq (insert_realloc T c v pos) id
      (\<lambda>v'. Returns pos (v'\<lparr>m_size := m_size v' + 1\<rparr>) []) = Throws e w es"
    by (simp add: Emplace_def Size_def)
  then show ?thesis
  proof (cases rule: seq_ThrowsE)
    case (first s)
    with insert_realloc_strong [OF assms(1), of c v pos e s es] show ?thesis
      by simp
  next
    case (rest y s es1 es2)
    then show ?thesis by simp
  qed
qed

lemma unchanged_or_husk:
  assumes "w = v \<or> w = husk_left T c v"
  shows "w = v \<or> moves_from_element c \<and> w = husk_left T c v"
  using assms husk_left_same [of c T v] by blast

lemma Reserve_throws:
  assumes copy: "\<not> (is_nothrow_move_constructible T \<or> \<not> is_copy_constructible T)"
    and "wf v" and "Capacity v < n" and "fits T n"
    and "alloc_throws T n \<or> (\<exists>y\<in>set (elems v). copy_ctor_throws T y)"
  shows "\<exists>e es. Reserve T v n = Throws e v es"
proof (cases "alloc_throws T n")
  case True
  with assms(3) show ?thesis
    by (auto dest: Reserve_bad_alloc)
next
  case False
  with assms(5) have "\<exists>y\<in>set (elems v). copy_ctor_throws T y"
    by simp
  then obtain ys z zs where xs: "elems v = ys @ z # zs" and z: "copy_ctor_throws T z"
    and ys: "\<forall>y\<in>set ys. \<not> copy_ctor_throws T y"
    by (rule first_throwing)
  have "length (ys @ z # zs) \<le> Capacity v"
    using wf_bounds(1) [OF assms(2)] xs by simp
  from Reserve_copy_throws [OF this assms(3) False copy ys z assms(4)]
  have "Reserve T (mk (elems v) (Capacity v)) n
      = Throws T_exception (mk (elems v) (Capacity v)) (map CopyCtor ys @ map Dtor ys)"
    using xs by simp
  then show ?thesis
    using wf_is_mk [OF assms(2)] by auto
qed

lemma init_source_wf:
  assumes "wf v" and "init_ok (elems v) c"
  shows "init_source (m_data v) c = Inr (init_value (elems v) c)"
proof -
  have "init_source (m_data (mk (elems v) (Capacity v))) c = Inr (init_value (elems v) c)"
    unfolding mk_def by (simp add: init_on_block(1) [OF assms(2)])
  then show ?thesis
    using wf_is_mk [OF assms(1)] by simp
qed

lemma PushBack_body_throws:
  assumes copy: "\<not> (is_nothrow_move_constructible T \<or> \<not> is_copy_constructible T)"
    and "wf v" and "in_memory T v" and "Capacity v = Size v"
    and "init_ok (elems v) c" and "\<not> moves_from_element c"
    and "alloc_throws T (max 1 (2 * Capacity v)) \<or> init_throws T c (init_value (elems v) c)
           \<or> (\<exists>y\<in>set (elems v). copy_ctor_throws T y)"
  shows "\<exists>e es. PushBack_body T c v = Throws e v es"
proof -
  have size: "m_size v = length (elems v)" and full: "Capacity v = m_size v"
    using wf_bounds(3) [OF assms(2)] assms(4) by (simp_all add: Size_def)
  have nc: "(if m_size v = 0 then 1 else m_size v * 2) = max 1 (2 * Capacity v)"
    using full_vector(2) [OF assms(2,4)] size by simp
  have fit: "fits T (max 1 (2 * Capacity v))"
    using assms(3) by (rule in_memory_fits)
  show ?thesis
  proof (cases "alloc_throws T (max 1 (2 * Capacity v))")
    case True
    then have "PushBack_body T c v = Throws bad_alloc v []"
      using full nc by (intro PushBack_body_bad_alloc) simp_all
    then show ?thesis by blast
  next
    case False
    show ?thesis
    proof (cases "init_throws T c (init_value (elems v) c)")
      case True
      with init_source_wf [OF assms(2,5)] have "PushBack_body T c v = Throws T_exception v []"
        using full nc False fit by (intro PushBack_body_ctor_throws) simp_all
      then show ?thesis by blast
    next
      case no_ctor: False
      with False assms(7) have "\<exists>y\<in>set (after_elems T c (elems v)). copy_ctor_throws T y"
        by (simp add: after_elems_same [OF assms(6)])
      from PushBack_body_copy_throws [OF copy full_vector(2) [OF assms(2,4)] fit False assms(5)
          no_ctor this]
      show ?thesis
        using full_vector(1) [OF assms(2,4)] by (auto simp: after_elems_same [OF assms(6)])
    qed
  qed
qed

lemma EmplaceBack_throws:
  assumes "PushBack_body T c v = Throws e w es"
  shows "EmplaceBack T v c = Throws e w es"
  using assms by (simp add: EmplaceBack_def seq_simps)

lemma insert_realloc_throws:
  assumes copy: "\<not> (is_nothrow_move_constructible T \<or> \<not> is_copy_constructible T)"
    and "wf v" and "in_memory T v" and "Capacity v = Size v" and "pos \<le> Size v"
    and "init_ok (elems v) c" and "\<not> moves_from_element c"
    and "alloc_throws T (max 1 (2 * Capacity v)) \<or> init_throws T c (init_value (elems v) c)
           \<or> (\<exists>y\<in>set (elems v). copy_ctor_throws T y)"
  shows "\<exists>e es. insert_realloc T c v pos = Throws e v es"
proof -
  let ?as = "take pos (elems v)" and ?bs = "drop pos (elems v)"
  have size: "m_size v = length (elems v)" and full: "Capacity v = m_size v"
    using wf_bounds(3) [OF assms(2)] assms(4) by (simp_all add: Size_def)
  have nc: "(if m_size v = 0 then 1 else m_size v * 2) = max 1 (2 * Capacity v)"
    using full_vector(2) [OF assms(2,4)] size by simp
  have pos: "length ?as = pos" "pos \<le> m_size v"
    using assms(5) size by (simp_all add: Size_def)
  have fit: "fits T (max 1 (2 * Capacity v))"
    using assms(3) by (rule in_memory_fits)
  show ?thesis
  proof (cases "alloc_throws T (max 1 (2 * Capacity v))")
    case True
    then have "insert_realloc T c v pos = Throws bad_alloc v []"
      using nc by (intro insert_realloc_bad_alloc) simp
    then show ?thesis by blast
  next
    case False
    show ?thesis
    proof (cases "init_throws T c (init_value (elems v) c)")
      case True
      with init_source_wf [OF assms(2,6)] have "insert_realloc T c v pos = Throws T_exception v []"
        using pos(2) nc False fit by (intro insert_realloc_ctor_throws) simp_all
      then show ?thesis by blast
    next
      case no_ctor: False
      with False assms(8) have ex: "\<exists>y\<in>set (?as @ ?bs). copy_ctor_throws T y"
        by simp
      have split: "after_elems T c (elems v) = ?as @ ?bs"
        by (simp add: after_elems_same [OF assms(7)])
      from insert_realloc_copy_throws [OF copy full_vector(2) [OF assms(2,4)] fit False assms(6)
          no_ctor split ex]
      show ?thesis
        using full_vector(1) [OF assms(2,4)] pos(1) by auto
    qed
  qed
qed

lemma Insert_body_throws:
  assumes "insert_realloc T c v pos = Throws e w es" and "Capacity v = Size v"
    and "pos \<le> Size v"
  shows "Insert_body T c v pos = Throws e w es"
  using assms by (simp add: Insert_body_def cend_def Size_def seq_simps)

lemma Emplace_throws:
  assumes "insert_realloc T c v pos = Throws e w es" and "Capacity v = Size v"
    and "pos \<le> Size v"
  shows "Emplace T v pos c = Throws e w es"
  using assms by (simp add: Emplace_def cend_def Size_def seq_simps)

text \<open>
  C1 (the claim is too wide).  \<open>PushBack(T&&)\<close>, \<open>Insert(T&&)\<close>, \<open>EmplaceBack\<close> and
  \<open>Emplace\<close> take their argument by reference, and on a full vector they build the new
  element before they copy the existing ones.  When the argument is an element of the
  vector itself, as in \<^verbatim>\<open>v.PushBack(std::move(v[0]))\<close>, that element is moved from first; if
  the copy of a later element then throws, the exception leaves the vector with the
  moved-from element.  Here T is copyable, its move constructor leaves the value 0 and
  its copy constructor throws on the value 3.
\<close>

theorem moved_from_element_counterexample:
  "is_copy_constructible (fragile (0 :: int) 3) \<and>
   \<not> is_nothrow_move_constructible (fragile (0 :: int) 3) \<and>
   wf (mk [1, 2, 3, 4 :: int] 4) \<and> in_memory (fragile 0 3) (mk [1, 2, 3, 4 :: int] 4) \<and>
   Capacity (mk [1, 2, 3, 4 :: int] 4) = Size (mk [1, 2, 3, 4 :: int] 4) \<and>
   Vector_at (mk [1, 2, 3, 4 :: int] 4) 0 = Inr 1 \<and>
   Vector_at (mk [0, 2, 3, 4 :: int] 4) 0 = Inr 0 \<and>
   PushBack_rvalue (fragile 0 3) (mk [1, 2, 3, 4 :: int] 4) (Element 0)
     = Throws T_exception (mk [0, 2, 3, 4] 4)
         [MoveCtor 1, CopyCtor 0, CopyCtor 2, Dtor 0, Dtor 2] \<and>
   EmplaceBack (fragile 0 3) (mk [1, 2, 3, 4 :: int] 4) (Moving (Element 0))
     = Throws T_exception (mk [0, 2, 3, 4] 4)
         [MoveCtor 1, CopyCtor 0, CopyCtor 2, Dtor 0, Dtor 2]"
proof -
  let ?T = "fragile (0 :: int) 3" and ?v = "mk [1, 2, 3, 4 :: int] 4"
  let ?c = "Moving (Element 0) :: int init"
  have t: "is_copy_constructible ?T" "\<not> is_nothrow_move_constructible ?T"
    and copy: "\<not> (is_nothrow_move_constructible ?T \<or> \<not> is_copy_constructible ?T)"
    by (simp_all add: fragile_def)
  have w: "wf ?v"
    by (rule wf_mk) (simp_all add: SIZE_MAX_def)
  have m: "in_memory ?T ?v"
    by (simp add: in_memory_def fragile_def PTRDIFF_MAX_def)
  have full: "Capacity ?v = Size ?v"
    by (simp add: Size_def)
  have at: "Vector_at ?v 0 = Inr 1" "Vector_at (mk [0, 2, 3, 4 :: int] 4) 0 = Inr 0"
    by (simp_all add: Vector_at_mk)
  have l4: "length [1, 2, 3, 4 :: int] = 4"
    by simp
  have f: "fits ?T 8" and a: "\<not> alloc_throws ?T 8"
    by (simp_all add: fits_def fragile_def SIZE_MAX_def)
  have ok: "init_ok [1, 2, 3, 4 :: int] ?c"
    and nothrow: "\<not> init_throws ?T ?c (init_value [1, 2, 3, 4] ?c)"
    and val: "init_value [1, 2, 3, 4 :: int] ?c = 1"
    and aft: "after_elems ?T ?c [1, 2, 3, 4] = [0, 2] @ 3 # [4]"
    and ys: "\<forall>y\<in>set [0, 2 :: int]. \<not> copy_ctor_throws ?T y" and z: "copy_ctor_throws ?T 3"
    by (simp_all add: fragile_def)
  have "PushBack_body ?T ?c (mk [1, 2, 3, 4] (length [1, 2, 3, 4 :: int]))
      = Throws T_exception (mk (after_elems ?T ?c [1, 2, 3, 4]) (length [1, 2, 3, 4 :: int]))
          (init_event ?c (init_value [1, 2, 3, 4] ?c) # map CopyCtor [0, 2] @ map Dtor [0, 2])"
    using copy _ f a ok nothrow aft ys z by (rule PushBack_body_copy_throws_at) simp
  then have push: "PushBack_body ?T ?c ?v
      = Throws T_exception (mk [0, 2, 3, 4] 4)
          [MoveCtor 1, CopyCtor 0, CopyCtor 2, Dtor 0, Dtor 2]"
    unfolding l4 val by (simp add: fragile_def)
  from push have "PushBack_rvalue ?T ?v (Element 0)
      = Throws T_exception (mk [0, 2, 3, 4] 4)
          [MoveCtor 1, CopyCtor 0, CopyCtor 2, Dtor 0, Dtor 2]"
    by (simp add: PushBack_rvalue_def)
  moreover from push have "EmplaceBack ?T ?v ?c
      = Throws T_exception (mk [0, 2, 3, 4] 4)
          [MoveCtor 1, CopyCtor 0, CopyCtor 2, Dtor 0, Dtor 2]"
    by (rule EmplaceBack_throws)
  ultimately show ?thesis
    using t w m full at by simp
qed

text \<open>
  C1, apart from a move out of the vector itself.  Let T be copy-constructible with a
  move constructor that may throw, so that the growth paths copy.  Then whenever
  \<open>Reserve\<close>, \<open>PushBack\<close> (either overload) or \<open>EmplaceBack\<close> leaves by an exception, and
  whenever \<open>Insert\<close> (either overload) or \<open>Emplace\<close> on a full vector does, the vector is
  exactly as before the call (same size, same capacity, same slots), unless the call
  moves from one of the vector's own elements: then the vector is as before the call, or
  as before but for that element, which holds a moved-from object (\<open>husk_left\<close>).  Such
  exceptions do occur: on a vector that satisfies the invariant, a growing call that
  does not move from an element of the vector throws, with the vector unchanged, as soon
  as the allocation, the construction of the new element or the copy of an existing
  element throws.
\<close>

theorem strong_exception_safety:
  assumes "is_copy_constructible T" and "\<not> is_nothrow_move_constructible T"
  shows "(Reserve T v n = Throws e w es \<longrightarrow> w = v) \<and>
         (PushBack T v x = Throws e w es \<longrightarrow> w = v) \<and>
         (PushBack_rvalue T v a = Throws e w es \<longrightarrow>
            w = v \<or> moves_from_element (Moving a) \<and> w = husk_left T (Moving a) v) \<and>
         (EmplaceBack T v c = Throws e w es \<longrightarrow>
            w = v \<or> moves_from_element c \<and> w = husk_left T c v) \<and>
         (Capacity v = Size v \<longrightarrow>
            (Insert T v pos x = Throws e w es \<longrightarrow> w = v) \<and>
            (Insert_rvalue T v pos a = Throws e w es \<longrightarrow>
               w = v \<or> moves_from_element (Moving a) \<and> w = husk_left T (Moving a) v) \<and>
            (Emplace T v pos c = Throws e w es \<longrightarrow>
               w = v \<or> moves_from_element c \<and> w = husk_left T c v)) \<and>
         (wf v \<and> init_ok (elems v) c \<longrightarrow>
            husk_left T c v = mk (after_elems T c (elems v)) (Capacity v)) \<and>
         (wf v \<and> Capacity v < n \<and> fits T n \<and>
            (alloc_throws T n \<or> (\<exists>y\<in>set (elems v). copy_ctor_throws T y)) \<longrightarrow>
            (\<exists>e' es'. Reserve T v n = Throws e' v es')) \<and>
         (wf v \<and> in_memory T v \<and> Capacity v = Size v \<longrightarrow>
            (alloc_throws T (max 1 (2 * Capacity v)) \<or> copy_ctor_throws T x
               \<or> (\<exists>y\<in>set (elems v). copy_ctor_throws T y) \<longrightarrow>
               (\<exists>e' es'. PushBack T v x = Throws e' v es') \<and>
               (pos \<le> Size v \<longrightarrow> (\<exists>e' es'. Insert T v pos x = Throws e' v es'))) \<and>
            (arg_ok (elems v) a \<and> \<not> moves_from_element (Moving a) \<and>
               (alloc_throws T (max 1 (2 * Capacity v))
                  \<or> move_ctor_throws T (arg_of (elems v) a)
                  \<or> (\<exists>y\<in>set (elems v). copy_ctor_throws T y)) \<longrightarrow>
               (\<exists>e' es'. PushBack_rvalue T v a = Throws e' v es') \<and>
               (pos \<le> Size v \<longrightarrow> (\<exists>e' es'. Insert_rvalue T v pos a = Throws e' v es'))) \<and>
            (init_ok (elems v) c \<and> \<not> moves_from_element c \<and>
               (alloc_throws T (max 1 (2 * Capacity v))
                  \<or> init_throws T c (init_value (elems v) c)
                  \<or> (\<exists>y\<in>set (elems v). copy_ctor_throws T y)) \<longrightarrow>
               (\<exists>e' es'. EmplaceBack T v c = Throws e' v es') \<and>
               (pos \<le> Size v \<longrightarrow> (\<exists>e' es'. Emplace T v pos c = Throws e' v es'))))"
proof -
  have copy: "\<not> (is_nothrow_move_constructible T \<or> \<not> is_copy_constructible T)"
    using assms by simp
  have unchanged: "(Reserve T v n = Throws e w es \<longrightarrow> w = v) \<and>
         (PushBack T v x = Throws e w es \<longrightarrow> w = v) \<and>
         (PushBack_rvalue T v a = Throws e w es \<longrightarrow>
            w = v \<or> moves_from_element (Moving a) \<and> w = husk_left T (Moving a) v) \<and>
         (EmplaceBack T v c = Throws e w es \<longrightarrow>
            w = v \<or> moves_from_element c \<and> w = husk_left T c v) \<and>
         (Capacity v = Size v \<longrightarrow>
            (Insert T v pos x = Throws e w es \<longrightarrow> w = v) \<and>
            (Insert_rvalue T v pos a = Throws e w es \<longrightarrow>
               w = v \<or> moves_from_element (Moving a) \<and> w = husk_left T (Moving a) v) \<and>
            (Emplace T v pos c = Throws e w es \<longrightarrow>
               w = v \<or> moves_from_element c \<and> w = husk_left T c v))"
    unfolding PushBack_def PushBack_rvalue_def Insert_def Insert_rvalue_def
  proof (intro conjI impI)
    show "w = v" if "Reserve T v n = Throws e w es"
      using copy that by (rule Reserve_strong)
    show "w = v" if "PushBack_body T (Copying (Outside x)) v = Throws e w es"
      using unchanged_or_husk [OF PushBack_body_strong [OF copy that]] by simp
    show "w = v \<or> moves_from_element (Moving a) \<and> w = husk_left T (Moving a) v"
      if "PushBack_body T (Moving a) v = Throws e w es"
      using PushBack_body_strong [OF copy that] by (rule unchanged_or_husk)
    show "w = v \<or> moves_from_element c \<and> w = husk_left T c v"
      if "EmplaceBack T v c = Throws e w es"
      using EmplaceBack_strong [OF copy that] by (rule unchanged_or_husk)
    show "w = v"
      if "Capacity v = Size v" and "Insert_body T (Copying (Outside x)) v pos = Throws e w es"
      using unchanged_or_husk [OF Insert_body_strong [OF copy that]] by simp
    show "w = v \<or> moves_from_element (Moving a) \<and> w = husk_left T (Moving a) v"
      if "Capacity v = Size v" and "Insert_body T (Moving a) v pos = Throws e w es"
      using Insert_body_strong [OF copy that] by (rule unchanged_or_husk)
    show "w = v \<or> moves_from_element c \<and> w = husk_left T c v"
      if "Capacity v = Size v" and "Emplace T v pos c = Throws e w es"
      using Emplace_strong [OF copy that] by (rule unchanged_or_husk)
  qed
  have husk: "wf v \<and> init_ok (elems v) c \<longrightarrow>
      husk_left T c v = mk (after_elems T c (elems v)) (Capacity v)"
  proof
    assume h: "wf v \<and> init_ok (elems v) c"
    then have "husk_left T c (mk (elems v) (Capacity v))
        = mk (after_elems T c (elems v)) (Capacity v)"
      using wf_bounds(1) [of v] by (intro husk_left_mk) simp_all
    with h show "husk_left T c v = mk (after_elems T c (elems v)) (Capacity v)"
      using wf_is_mk [of v] by simp
  qed
  have reserve: "wf v \<and> Capacity v < n \<and> fits T n \<and>
        (alloc_throws T n \<or> (\<exists>y\<in>set (elems v). copy_ctor_throws T y)) \<longrightarrow>
        (\<exists>e' es'. Reserve T v n = Throws e' v es')"
    using Reserve_throws [OF copy] by blast
  have body: "(\<exists>e' es'. PushBack_body T i v = Throws e' v es') \<and>
        (\<exists>e' es'. EmplaceBack T v i = Throws e' v es') \<and>
        (pos \<le> Size v \<longrightarrow> (\<exists>e' es'. Insert_body T i v pos = Throws e' v es')) \<and>
        (pos \<le> Size v \<longrightarrow> (\<exists>e' es'. Emplace T v pos i = Throws e' v es'))"
    if v: "wf v" "in_memory T v" "Capacity v = Size v"
      and i: "init_ok (elems v) i" "\<not> moves_from_element i"
        "alloc_throws T (max 1 (2 * Capacity v)) \<or> init_throws T i (init_value (elems v) i)
           \<or> (\<exists>y\<in>set (elems v). copy_ctor_throws T y)" for i
  proof (intro conjI impI)
    from PushBack_body_throws [OF copy v i] obtain e' es'
      where push: "PushBack_body T i v = Throws e' v es'"
      by blast
    then show "\<exists>e' es'. PushBack_body T i v = Throws e' v es'"
      by blast
    from push have "EmplaceBack T v i = Throws e' v es'"
      by (rule EmplaceBack_throws)
    then show "\<exists>e' es'. EmplaceBack T v i = Throws e' v es'"
      by blast
  next
    assume pos: "pos \<le> Size v"
    from insert_realloc_throws [OF copy v pos i] obtain e' es'
      where ins: "insert_realloc T i v pos = Throws e' v es'"
      by blast
    from Insert_body_throws [OF ins v(3) pos]
    show "\<exists>e' es'. Insert_body T i v pos = Throws e' v es'"
      by blast
    from Emplace_throws [OF ins v(3) pos]
    show "\<exists>e' es'. Emplace T v pos i = Throws e' v es'"
      by blast
  qed
  have grow: "wf v \<and> in_memory T v \<and> Capacity v = Size v \<longrightarrow>
            (alloc_throws T (max 1 (2 * Capacity v)) \<or> copy_ctor_throws T x
               \<or> (\<exists>y\<in>set (elems v). copy_ctor_throws T y) \<longrightarrow>
               (\<exists>e' es'. PushBack T v x = Throws e' v es') \<and>
               (pos \<le> Size v \<longrightarrow> (\<exists>e' es'. Insert T v pos x = Throws e' v es'))) \<and>
            (arg_ok (elems v) a \<and> \<not> moves_from_element (Moving a) \<and>
               (alloc_throws T (max 1 (2 * Capacity v))
                  \<or> move_ctor_throws T (arg_of (elems v) a)
                  \<or> (\<exists>y\<in>set (elems v). copy_ctor_throws T y)) \<longrightarrow>
               (\<exists>e' es'. PushBack_rvalue T v a = Throws e' v es') \<and>
               (pos \<le> Size v \<longrightarrow> (\<exists>e' es'. Insert_rvalue T v pos a = Throws e' v es'))) \<and>
            (init_ok (elems v) c \<and> \<not> moves_from_element c \<and>
               (alloc_throws T (max 1 (2 * Capacity v))
                  \<or> init_throws T c (init_value (elems v) c)
                  \<or> (\<exists>y\<in>set (elems v). copy_ctor_throws T y)) \<longrightarrow>
               (\<exists>e' es'. EmplaceBack T v c = Throws e' v es') \<and>
               (pos \<le> Size v \<longrightarrow> (\<exists>e' es'. Emplace T v pos c = Throws e' v es')))"
  proof (intro impI conjI; elim conjE)
    assume v: "wf v" "in_memory T v" "Capacity v = Size v"
    {
      assume "alloc_throws T (max 1 (2 * Capacity v)) \<or> copy_ctor_throws T x
               \<or> (\<exists>y\<in>set (elems v). copy_ctor_throws T y)"
      then have i: "alloc_throws T (max 1 (2 * Capacity v))
          \<or> init_throws T (Copying (Outside x)) (init_value (elems v) (Copying (Outside x)))
          \<or> (\<exists>y\<in>set (elems v). copy_ctor_throws T y)"
        by simp
      from body [OF v _ _ i] show "\<exists>e' es'. PushBack T v x = Throws e' v es'"
        unfolding PushBack_def by simp
      assume "pos \<le> Size v"
      with body [OF v _ _ i] show "\<exists>e' es'. Insert T v pos x = Throws e' v es'"
        unfolding Insert_def by simp
    next
      assume a: "arg_ok (elems v) a" "\<not> moves_from_element (Moving a)"
        "alloc_throws T (max 1 (2 * Capacity v)) \<or> move_ctor_throws T (arg_of (elems v) a)
           \<or> (\<exists>y\<in>set (elems v). copy_ctor_throws T y)"
      then have i: "init_ok (elems v) (Moving a)"
        "alloc_throws T (max 1 (2 * Capacity v))
          \<or> init_throws T (Moving a) (init_value (elems v) (Moving a))
          \<or> (\<exists>y\<in>set (elems v). copy_ctor_throws T y)"
        by simp_all
      from body [OF v i(1) a(2) i(2)] show "\<exists>e' es'. PushBack_rvalue T v a = Throws e' v es'"
        unfolding PushBack_rvalue_def by simp
      assume "pos \<le> Size v"
      with body [OF v i(1) a(2) i(2)]
      show "\<exists>e' es'. Insert_rvalue T v pos a = Throws e' v es'"
        unfolding Insert_rvalue_def by simp
    next
      assume c: "init_ok (elems v) c" "\<not> moves_from_element c"
        "alloc_throws T (max 1 (2 * Capacity v)) \<or> init_throws T c (init_value (elems v) c)
           \<or> (\<exists>y\<in>set (elems v). copy_ctor_throws T y)"
      from body [OF v c] show "\<exists>e' es'. EmplaceBack T v c = Throws e' v es'"
        by simp
      assume "pos \<le> Size v"
      with body [OF v c] show "\<exists>e' es'. Emplace T v pos c = Throws e' v es'"
        by simp
    }
  qed
  from unchanged husk reserve grow show ?thesis
    by (elim conjE) (intro conjI; assumption)
qed

theorem strong_exception_safety_witness:
  "is_copy_constructible (fragile (0 :: int) 3) \<and>
   \<not> is_nothrow_move_constructible (fragile (0 :: int) 3) \<and>
   wf (mk [1, 2, 3, 4 :: int] 4) \<and> in_memory (fragile 0 3) (mk [1, 2, 3, 4 :: int] 4) \<and>
   fits (fragile (0 :: int) 3) 8 \<and>
   Capacity (mk [1, 2, 3, 4 :: int] 4) = Size (mk [1, 2, 3, 4 :: int] 4) \<and>
   husk_left (fragile 0 3) (Moving (Element 0)) (mk [1, 2, 3, 4 :: int] 4) = mk [0, 2, 3, 4] 4 \<and>
   (\<exists>e es. Reserve (fragile 0 3) (mk [1, 2, 3, 4 :: int] 4) 8
              = Throws e (mk [1, 2, 3, 4] 4) es) \<and>
   (\<exists>e es. PushBack (fragile 0 3) (mk [1, 2, 3, 4 :: int] 4) 5
              = Throws e (mk [1, 2, 3, 4] 4) es) \<and>
   (\<exists>e es. PushBack_rvalue (fragile 0 3) (mk [1, 2, 3, 4 :: int] 4) (Outside 5)
              = Throws e (mk [1, 2, 3, 4] 4) es) \<and>
   (\<exists>e es. EmplaceBack (fragile 0 3) (mk [1, 2, 3, 4 :: int] 4) (Building 5)
              = Throws e (mk [1, 2, 3, 4] 4) es) \<and>
   (\<exists>e es. Insert (fragile 0 3) (mk [1, 2, 3, 4 :: int] 4) 1 5
              = Throws e (mk [1, 2, 3, 4] 4) es) \<and>
   (\<exists>e es. Insert_rvalue (fragile 0 3) (mk [1, 2, 3, 4 :: int] 4) 1 (Outside 5)
              = Throws e (mk [1, 2, 3, 4] 4) es) \<and>
   (\<exists>e es. Emplace (fragile 0 3) (mk [1, 2, 3, 4 :: int] 4) 1 (Building 5)
              = Throws e (mk [1, 2, 3, 4] 4) es)"
proof -
  let ?T = "fragile (0 :: int) 3" and ?v = "mk [1, 2, 3, 4 :: int] 4"
  have t: "is_copy_constructible ?T" "\<not> is_nothrow_move_constructible ?T"
    by (simp_all add: fragile_def)
  have w: "wf ?v"
    by (rule wf_mk) (simp_all add: SIZE_MAX_def)
  have m: "in_memory ?T ?v" "fits ?T 8"
    by (simp_all add: in_memory_def fits_def fragile_def PTRDIFF_MAX_def SIZE_MAX_def)
  have full: "Capacity ?v = Size ?v" "Capacity ?v < 8" "(1 :: nat) \<le> Size ?v"
    by (simp_all add: Size_def)
  have bad: "\<exists>y\<in>set (elems ?v). copy_ctor_throws ?T y"
    by (simp add: fragile_def)
  have ok: "init_ok (elems ?v) (Moving (Element 0))"
    by simp
  have h: "mk (after_elems ?T (Moving (Element 0)) (elems ?v)) (Capacity ?v) = mk [0, 2, 3, 4] 4"
    by (simp add: fragile_def)
  have args: "arg_ok (elems ?v) (Outside 5)" "\<not> moves_from_element (Moving (Outside (5 :: int)))"
    "init_ok (elems ?v) (Building 5)" "\<not> moves_from_element (Building (5 :: int))"
    by simp_all
  note main = strong_exception_safety [OF t, where v = ?v and n = 8 and x = 5 and pos = 1
      and a = "Outside 5" and c = "Building 5"]
  note tail = main [THEN conjunct2, THEN conjunct2, THEN conjunct2, THEN conjunct2, THEN conjunct2,
      THEN conjunct2]
  note husk = strong_exception_safety [OF t, where v = ?v and c = "Moving (Element 0)",
      THEN conjunct2, THEN conjunct2, THEN conjunct2, THEN conjunct2, THEN conjunct2,
      THEN conjunct1, THEN mp, OF conjI [OF w ok]]
  from husk h have husk': "husk_left ?T (Moving (Element 0)) ?v = mk [0, 2, 3, 4] 4"
    by simp
  have "\<exists>e es. Reserve ?T ?v 8 = Throws e ?v es"
    using tail [THEN conjunct1] w m(2) full(2) bad by blast
  moreover note grow = tail [THEN conjunct2, THEN mp, OF conjI [OF w conjI [OF m(1) full(1)]]]
  have "\<exists>e es. PushBack ?T ?v 5 = Throws e ?v es"
    and "\<exists>e es. Insert ?T ?v 1 5 = Throws e ?v es"
    using grow [THEN conjunct1] full(3) bad by blast+
  moreover have "\<exists>e es. PushBack_rvalue ?T ?v (Outside 5) = Throws e ?v es"
    and "\<exists>e es. Insert_rvalue ?T ?v 1 (Outside 5) = Throws e ?v es"
    using grow [THEN conjunct2, THEN conjunct1] full(3) bad args(1,2) by blast+
  moreover have "\<exists>e es. EmplaceBack ?T ?v (Building 5) = Throws e ?v es"
    and "\<exists>e es. Emplace ?T ?v 1 (Building 5) = Throws e ?v es"
    using grow [THEN conjunct2, THEN conjunct2] full(3) bad args(3,4) by blast+
  ultimately show ?thesis
    using t w m full husk' by (intro conjI)
qed

section \<open>The scenario of the specification\<close>

text \<open>After the five pushes: insert 99 at position 2, erase position 0, resize to 2,
  resize to 4 (the new elements are value-initialised).\<close>

lemma scenario:
  "Insert (plain 0) (mk [1, 2, 3, 4, 5 :: int] 8) 2 99
     = Returns 2 (mk [1, 2, 99, 3, 4, 5] 8)
         [CopyCtor 99, MoveCtor 5, MoveAssign 4, MoveAssign 3, MoveAssign 99, Dtor 99]"
  "Erase (plain 0) (mk [1, 2, 99, 3, 4, 5 :: int] 8) 0
     = Returns 0 (mk [2, 99, 3, 4, 5] 8)
         [MoveAssign 2, MoveAssign 99, MoveAssign 3, MoveAssign 4, MoveAssign 5, Dtor 5]"
  "Resize (plain 0) (mk [2, 99, 3, 4, 5 :: int] 8) 2
     = Returns () (mk [2, 99] 8) [Dtor 3, Dtor 4, Dtor 5]"
  "Resize (plain 0) (mk [2, 99 :: int] 8) 4
     = Returns () (mk [2, 99, 0, 0] 8) [DefaultCtor, DefaultCtor]"
proof -
  let ?T = "plain (0 :: int)"
  let ?c = "Copying (Outside (99 :: int))"
  have "Insert_body ?T ?c (mk [1, 2, 3, 4, 5] 8) (length [1, 2 :: int])
      = Returns (length [1, 2 :: int])
          (mk ([1, 2] @ init_value [1, 2, 3, 4, 5] ?c # [3, 4] @ [5]) 8)
          (init_event ?c (init_value [1, 2, 3, 4, 5] ?c) # MoveCtor 5 # map MoveAssign (rev [3, 4])
             @ [MoveAssign (init_value [1, 2, 3, 4, 5] ?c),
                Dtor (moved_from ?T (init_value [1, 2, 3, 4, 5] ?c))])"
    by (rule Insert_body_in_place_ok) (simp_all add: SIZE_MAX_def plain_def)
  then show "Insert ?T (mk [1, 2, 3, 4, 5] 8) 2 99
     = Returns 2 (mk [1, 2, 99, 3, 4, 5] 8)
         [CopyCtor 99, MoveCtor 5, MoveAssign 4, MoveAssign 3, MoveAssign 99, Dtor 99]"
    by (simp add: Insert_def plain_def numeral_2_eq_2)
  have "Erase ?T (mk ([] @ 1 # [2, 99, 3, 4, 5]) 8) (length ([] :: int list))
      = Returns (length ([] :: int list)) (mk ([] @ [2, 99, 3, 4, 5]) 8)
          (map MoveAssign [2, 99, 3, 4, 5]
             @ [Dtor (if [2, 99, 3, 4, 5 :: int] = [] then 1
                      else moved_from ?T (last [2, 99, 3, 4, 5]))])"
    by (rule Erase_ok) (simp_all add: plain_def)
  then show "Erase ?T (mk [1, 2, 99, 3, 4, 5] 8) 0
     = Returns 0 (mk [2, 99, 3, 4, 5] 8)
         [MoveAssign 2, MoveAssign 99, MoveAssign 3, MoveAssign 4, MoveAssign 5, Dtor 5]"
    by (simp add: plain_def)
  have "destroy_n (map Live [2, 99] @ map Live [3, 4, 5 :: int] @ replicate 3 Raw)
          (length (map Live [2, 99 :: int])) (length [3, 4, 5 :: int])
      = Returns () (map Live [2, 99] @ replicate (length [3, 4, 5 :: int]) Raw @ replicate 3 Raw)
          (map Dtor [3, 4, 5])"
    by (rule destroy_n_live)
  then show "Resize ?T (mk [2, 99, 3, 4, 5] 8) 2 = Returns () (mk [2, 99] 8) [Dtor 3, Dtor 4, Dtor 5]"
    by (simp add: Resize_def mk_def seq_simps emits_simps numeral_2_eq_2 numeral_3_eq_3
          eval_nat_numeral)
  show "Resize ?T (mk [2, 99] 8) 4 = Returns () (mk [2, 99, 0, 0] 8) [DefaultCtor, DefaultCtor]"
    by (simp add: Resize_def mk_def plain_def Capacity_def uninitialized_value_construct_n_def
          construct_at_def seq_simps emits_simps eval_nat_numeral)
qed

end
